theory Spec2Isabelle
  imports Complex_Main "HOL-Library.Code_Target_Nat"
begin

section \<open>JavaScript numbers\<close>

text \<open>
  The widget computes with JavaScript numbers. A number is \<open>NaN\<close>, one of the two
  infinities, or a finite value, which is a real. The sign of zero is not part of
  this model. Every operator below is the one the source applies, defined on all
  four kinds of number; on finite operands it gives the exact result, which
  \<open>rounded\<close> (below) turns into the double that the machine computes. The skip
  handlers and the volume effect, which apply one operation, are written with the
  exact operator; where the source chains operations (the seek by click, the
  minutes of \<open>formatTime\<close>) every operation is rounded.
\<close>

datatype jsnum = NaN | NInf | Fin real | PInf

text \<open>The global \<^verbatim>\<open>isNaN\<close>.\<close>

fun js_isNaN :: "jsnum \<Rightarrow> bool" where
  "js_isNaN NaN = True"
| "js_isNaN _ = False"

text \<open>Truthiness of a number, as in \<^verbatim>\<open>!duration\<close>: zero and \<open>NaN\<close> are falsy.\<close>

fun js_truthy :: "jsnum \<Rightarrow> bool" where
  "js_truthy NaN = False"
| "js_truthy (Fin r) = (r \<noteq> 0)"
| "js_truthy _ = True"

fun js_neg :: "jsnum \<Rightarrow> jsnum" where
  "js_neg NaN = NaN"
| "js_neg NInf = PInf"
| "js_neg PInf = NInf"
| "js_neg (Fin r) = Fin (- r)"

text \<open>The operators \<^verbatim>\<open>+\<close>, \<^verbatim>\<open>-\<close>, \<^verbatim>\<open>*\<close>, \<^verbatim>\<open>/\<close> and \<^verbatim>\<open>%\<close> on numbers.\<close>

fun js_add :: "jsnum \<Rightarrow> jsnum \<Rightarrow> jsnum" where
  "js_add (Fin a) (Fin b) = Fin (a + b)"
| "js_add NaN _ = NaN"
| "js_add _ NaN = NaN"
| "js_add PInf NInf = NaN"
| "js_add NInf PInf = NaN"
| "js_add PInf _ = PInf"
| "js_add _ PInf = PInf"
| "js_add NInf _ = NInf"
| "js_add _ NInf = NInf"

definition js_sub :: "jsnum \<Rightarrow> jsnum \<Rightarrow> jsnum" where
  "js_sub a b = js_add a (js_neg b)"

fun js_mul :: "jsnum \<Rightarrow> jsnum \<Rightarrow> jsnum" where
  "js_mul (Fin a) (Fin b) = Fin (a * b)"
| "js_mul NaN _ = NaN"
| "js_mul _ NaN = NaN"
| "js_mul (Fin a) i = (if a = 0 then NaN else if 0 < a then i else js_neg i)"
| "js_mul i (Fin b) = (if b = 0 then NaN else if 0 < b then i else js_neg i)"
| "js_mul i j = (if i = j then PInf else NInf)"

fun js_div :: "jsnum \<Rightarrow> jsnum \<Rightarrow> jsnum" where
  "js_div NaN _ = NaN"
| "js_div _ NaN = NaN"
| "js_div (Fin a) (Fin b) =
     (if b \<noteq> 0 then Fin (a / b)
      else if a = 0 then NaN
      else if 0 < a then PInf else NInf)"
| "js_div (Fin a) _ = Fin 0"
| "js_div i (Fin b) = (if 0 \<le> b then i else js_neg i)"
| "js_div _ _ = NaN"

text \<open>
  The remainder takes the sign of the dividend: the quotient is truncated towards
  zero.
\<close>

definition trunc :: "real \<Rightarrow> int" where
  "trunc r = (if 0 \<le> r then \<lfloor>r\<rfloor> else \<lceil>r\<rceil>)"

fun js_rem :: "jsnum \<Rightarrow> jsnum \<Rightarrow> jsnum" where
  "js_rem (Fin a) (Fin b) =
     (if b = 0 then NaN else Fin (a - b * of_int (trunc (a / b))))"
| "js_rem (Fin a) PInf = Fin a"
| "js_rem (Fin a) NInf = Fin a"
| "js_rem _ _ = NaN"

text \<open>\<^verbatim>\<open>Math.floor\<close>, \<^verbatim>\<open>Math.max\<close> and \<^verbatim>\<open>Math.min\<close> (of two arguments).\<close>

fun Math_floor :: "jsnum \<Rightarrow> jsnum" where
  "Math_floor (Fin r) = Fin (of_int \<lfloor>r\<rfloor>)"
| "Math_floor n = n"

fun Math_max :: "jsnum \<Rightarrow> jsnum \<Rightarrow> jsnum" where
  "Math_max NaN _ = NaN"
| "Math_max _ NaN = NaN"
| "Math_max PInf _ = PInf"
| "Math_max _ PInf = PInf"
| "Math_max NInf b = b"
| "Math_max a NInf = a"
| "Math_max (Fin a) (Fin b) = Fin (max a b)"

fun Math_min :: "jsnum \<Rightarrow> jsnum \<Rightarrow> jsnum" where
  "Math_min NaN _ = NaN"
| "Math_min _ NaN = NaN"
| "Math_min NInf _ = NInf"
| "Math_min _ NInf = NInf"
| "Math_min PInf b = b"
| "Math_min a PInf = a"
| "Math_min (Fin a) (Fin b) = Fin (min a b)"

subsection \<open>Rounding to a double\<close>

text \<open>
  A finite JavaScript number is an IEEE 754 binary64 value. The operators above give
  the exact result of an operation on finite operands; the machine then rounds it to
  the nearest double, ties to the even significand, and to an infinity on overflow.
  \<open>round64\<close> is that rounding: the unit in the last place of \<open>r\<close> is
  \<open>2\<^bsup>e - 52\<^esup>\<close> where \<open>2\<^bsup>e\<^esup> \<le> \<bar>r\<bar> < 2\<^bsup>e + 1\<^esup>\<close>, and \<open>e\<close> is not taken below
  \<open>-1022\<close> (the subnormal range). The remainder, \<^verbatim>\<open>Math.floor\<close>, \<^verbatim>\<open>Math.max\<close> and
  \<^verbatim>\<open>Math.min\<close> of doubles are doubles and need no rounding.
\<close>

function log2floor :: "int \<Rightarrow> nat" where
  "log2floor n = (if n < 2 then 0 else Suc (log2floor (n div 2)))"
  by pat_completeness auto
termination
  by (relation "measure nat") auto

declare log2floor.simps [simp del]

definition log2ceil :: "int \<Rightarrow> nat" where
  "log2ceil n = (if n \<le> 1 then 0 else Suc (log2floor (n - 1)))"

definition pow2 :: "int \<Rightarrow> real" where
  "pow2 e = (if 0 \<le> e then 2 ^ nat e else 1 / 2 ^ nat (- e))"

text \<open>The exponent \<open>e\<close> of a real other than zero: \<open>2\<^bsup>e\<^esup> \<le> \<bar>r\<bar> < 2\<^bsup>e + 1\<^esup>\<close>.\<close>

definition exponent :: "real \<Rightarrow> int" where
  "exponent r =
     (if 1 \<le> \<bar>r\<bar> then int (log2floor \<lfloor>\<bar>r\<bar>\<rfloor>)
      else - int (log2ceil \<lceil>1 / \<bar>r\<bar>\<rceil>))"

text \<open>The nearest integer, the even one of two that are equally near.\<close>

definition round_even :: "real \<Rightarrow> int" where
  "round_even x =
     (if x - of_int \<lfloor>x\<rfloor> < 1 / 2 then \<lfloor>x\<rfloor>
      else if 1 / 2 < x - of_int \<lfloor>x\<rfloor> then \<lfloor>x\<rfloor> + 1
      else if even \<lfloor>x\<rfloor> then \<lfloor>x\<rfloor> else \<lfloor>x\<rfloor> + 1)"

definition round64 :: "real \<Rightarrow> jsnum" where
  "round64 r =
     (if r = 0 then Fin 0
      else
        let ulp = pow2 (max (exponent r) (- 1022) - 52);
            y = of_int (round_even (r / ulp)) * ulp
        in if 2 ^ 1024 \<le> \<bar>y\<bar> then (if 0 < r then PInf else NInf) else Fin y)"

text \<open>The rounding of the result of an operator: only a finite result is rounded.\<close>

fun rounded :: "jsnum \<Rightarrow> jsnum" where
  "rounded (Fin r) = round64 r"
| "rounded n = n"

section \<open>The audio element\<close>

text \<open>
  The \<^verbatim>\<open><audio></audio>\<close> element is the browser's object, not the repository's. It is
  modelled as a record of the attributes the widget reads and writes, together with
  its list of registered event listeners. A setter stores the assigned value after
  the checks of its interface; what the browser then does with the value (seeking,
  buffering) is outside the model.
\<close>

datatype js_error = TypeError | IndexSizeError | NotAllowedError | NotSupportedError | AbortError

datatype event_type = Timeupdate | Loadedmetadata | Ended | Loadstart | Canplay

text \<open>
  The five closures that the listener effect creates. A closure is identified by its
  code and by the run of the effect that created it: two runs create different
  function objects.
\<close>

datatype handler = UpdateTime | UpdateDuration | HandleEnded | HandleLoadStart | HandleCanPlay

type_synonym listener = "handler \<times> nat"

record audio_element =
  el_currentTime :: real
  el_duration :: jsnum
  el_volume :: real
  el_paused :: bool
  el_listeners :: "(event_type \<times> listener) list"

text \<open>A freshly created element: nothing loaded, full volume, paused, no listener.\<close>

definition new_audio :: audio_element where
  "new_audio = \<lparr>el_currentTime = 0, el_duration = NaN, el_volume = 1,
     el_paused = True, el_listeners = []\<rparr>"

text \<open>
  \<^verbatim>\<open>audio.currentTime = v\<close>: the attribute is a (restricted) double, so a value that
  is not finite raises a TypeError.
\<close>

fun set_currentTime :: "jsnum \<Rightarrow> audio_element \<Rightarrow> js_error + audio_element" where
  "set_currentTime (Fin r) a = Inr (a\<lparr>el_currentTime := r\<rparr>)"
| "set_currentTime _ a = Inl TypeError"

text \<open>
  \<^verbatim>\<open>audio.volume = v\<close>: a value that is not finite raises a TypeError, a value outside
  the range from 0 to 1 raises an IndexSizeError.
\<close>

fun set_volume :: "jsnum \<Rightarrow> audio_element \<Rightarrow> js_error + audio_element" where
  "set_volume (Fin r) a =
     (if 0 \<le> r \<and> r \<le> 1 then Inr (a\<lparr>el_volume := r\<rparr>) else Inl IndexSizeError)"
| "set_volume _ a = Inl TypeError"

text \<open>
  \<^verbatim>\<open>addEventListener\<close> ignores a listener that is already registered for the event
  type; \<^verbatim>\<open>removeEventListener\<close> removes the registered one, if any.
\<close>

definition addEventListener :: "event_type \<Rightarrow> listener \<Rightarrow> audio_element \<Rightarrow> audio_element" where
  "addEventListener ty l a =
     (if (ty, l) \<in> set (el_listeners a) then a
      else a\<lparr>el_listeners := el_listeners a @ [(ty, l)]\<rparr>)"

definition removeEventListener :: "event_type \<Rightarrow> listener \<Rightarrow> audio_element \<Rightarrow> audio_element" where
  "removeEventListener ty l a = a\<lparr>el_listeners := removeAll (ty, l) (el_listeners a)\<rparr>"

text \<open>
  \<^verbatim>\<open>audio.play()\<close> returns a promise; whether it is fulfilled or rejected is decided
  by the browser and is an input of the model.
\<close>

datatype play_outcome = Resolved | Rejected js_error

section \<open>The state of MusicCard\<close>

text \<open>
  The six \<^verbatim>\<open>useState\<close> cells, the \<^verbatim>\<open>audioSrc\<close> prop, the ref, the audio element,
  the cleanup function that the listener effect returned last (named by the run
  that created its closures), the counter of effect runs, and the lines written by
  \<^verbatim>\<open>console.error\<close>.

  The widget renders one \<^verbatim>\<open><audio></audio>\<close> element, so \<^verbatim>\<open>audioRef.current\<close> is either null
  or that element. The element is a field of its own: a closure that captured it
  (the cleanup function) still reaches it when the ref has been cleared.
\<close>

datatype ref = Null | Elem

record player =
  isPlaying :: bool
  currentTime :: jsnum
  duration :: jsnum
  volume :: jsnum
  isLiked :: bool
  isLoading :: bool
  audioSrc :: string
  audioRef :: ref
  audio :: audio_element
  cleanup :: "nat option"
  runs :: nat
  console :: "js_error list"

text \<open>The values given to \<^verbatim>\<open>useState\<close> and \<^verbatim>\<open>useRef\<close> on the first render.\<close>

definition first_render :: "string \<Rightarrow> player" where
  "first_render src = \<lparr>isPlaying = False, currentTime = Fin 0, duration = Fin 0,
     volume = Fin 75, isLiked = False, isLoading = False, audioSrc = src,
     audioRef = Null, audio = new_audio, cleanup = None, runs = 0, console = []\<rparr>"

subsection \<open>Event handlers\<close>

definition handlePlayPause :: "player \<Rightarrow> player" where
  "handlePlayPause s = (if isLoading s then s else s\<lparr>isPlaying := \<not> isPlaying s\<rparr>)"

definition updateTime :: "player \<Rightarrow> player" where
  "updateTime s = s\<lparr>currentTime := Fin (el_currentTime (audio s))\<rparr>"

definition updateDuration :: "player \<Rightarrow> player" where
  "updateDuration s = s\<lparr>duration := el_duration (audio s)\<rparr>"

definition handleEnded :: "player \<Rightarrow> player" where
  "handleEnded s = s\<lparr>isPlaying := False\<rparr>"

definition handleLoadStart :: "player \<Rightarrow> player" where
  "handleLoadStart s = s\<lparr>isLoading := True\<rparr>"

definition handleCanPlay :: "player \<Rightarrow> player" where
  "handleCanPlay s = s\<lparr>isLoading := False\<rparr>"

definition toggleLike :: "player \<Rightarrow> player" where
  "toggleLike s = s\<lparr>isLiked := \<not> isLiked s\<rparr>"

text \<open>
  The click on the progress track. The event carries the pointer's \<^verbatim>\<open>clientX\<close> and
  the bounding rectangle of the track (its left edge and its width).
\<close>

record mouse_event =
  clientX :: real
  rect_left :: real
  rect_width :: real

definition handleProgressClick :: "mouse_event \<Rightarrow> player \<Rightarrow> js_error + player" where
  "handleProgressClick e s =
     (if audioRef s = Null \<or> \<not> js_truthy (duration s) then Inr s
      else
        let x = rounded (js_sub (Fin (clientX e)) (Fin (rect_left e)));
            width = Fin (rect_width e);
            newTime = rounded (js_mul (rounded (js_div x width)) (duration s))
        in case set_currentTime newTime (audio s) of
             Inl err \<Rightarrow> Inl err
           | Inr a \<Rightarrow> Inr (s\<lparr>audio := a, currentTime := newTime\<rparr>))"

definition handleSkipBack :: "player \<Rightarrow> js_error + player" where
  "handleSkipBack s =
     (case audioRef s of
        Null \<Rightarrow> Inr s
      | Elem \<Rightarrow>
          (case set_currentTime
                  (Math_max (Fin 0) (js_sub (Fin (el_currentTime (audio s))) (Fin 10)))
                  (audio s) of
             Inl err \<Rightarrow> Inl err
           | Inr a \<Rightarrow> Inr (s\<lparr>audio := a\<rparr>)))"

definition handleSkipForward :: "player \<Rightarrow> js_error + player" where
  "handleSkipForward s =
     (case audioRef s of
        Null \<Rightarrow> Inr s
      | Elem \<Rightarrow>
          (case set_currentTime
                  (Math_min (duration s) (js_add (Fin (el_currentTime (audio s))) (Fin 10)))
                  (audio s) of
             Inl err \<Rightarrow> Inl err
           | Inr a \<Rightarrow> Inr (s\<lparr>audio := a\<rparr>)))"

subsection \<open>Strings of digits\<close>

text \<open>The character of a decimal digit; it is only applied to digits below 10.\<close>

definition digit_char :: "nat \<Rightarrow> char" where
  "digit_char d = (if d < 10 then ''0123456789'' ! d else CHR ''?'')"

text \<open>The decimal numeral of a natural number, without leading zeros.\<close>

function digits10 :: "nat \<Rightarrow> string" where
  "digits10 n = (if n < 10 then [digit_char n] else digits10 (n div 10) @ [digit_char (n mod 10)])"
  by pat_completeness auto
termination
  by (relation "measure id") auto

declare digits10.simps [simp del]

text \<open>
  The conversion of a number to a string, as a template literal and \<^verbatim>\<open>toString()\<close>
  perform it. An integer of magnitude below \<open>2\<^sup>5\<^sup>3\<close> is written as its decimal
  numeral. Every other finite number is written with the shortest digits that
  identify the double, followed by zeros, a fraction or an exponent: that rendering
  is the parameter \<open>render\<close>.
\<close>

fun Number_toString :: "(real \<Rightarrow> string) \<Rightarrow> jsnum \<Rightarrow> string" where
  "Number_toString render NaN = ''NaN''"
| "Number_toString render PInf = ''Infinity''"
| "Number_toString render NInf = ''-Infinity''"
| "Number_toString render (Fin r) =
     (if r = of_int \<lfloor>r\<rfloor> \<and> \<bar>r\<bar> < 2 ^ 53
      then (if r < 0 then ''-'' else []) @ digits10 (nat \<bar>\<lfloor>r\<rfloor>\<bar>)
      else render r)"

text \<open>
  \<^verbatim>\<open>s.padStart(n, pad)\<close>: a string shorter than \<open>n\<close> is filled on the left with
  copies of \<open>pad\<close>, the last copy cut to fit.
\<close>

definition padStart :: "nat \<Rightarrow> string \<Rightarrow> string \<Rightarrow> string" where
  "padStart n pad s =
     (if n \<le> length s \<or> pad = [] then s
      else take (n - length s) (concat (replicate (n - length s) pad)) @ s)"

text \<open>A number below 100 written with exactly two digits, the first a zero if need be.\<close>

definition two_digits :: "nat \<Rightarrow> string" where
  "two_digits k = [digit_char (k div 10), digit_char (k mod 10)]"

definition formatTime :: "(real \<Rightarrow> string) \<Rightarrow> jsnum \<Rightarrow> string" where
  "formatTime render seconds =
     (if js_isNaN seconds then ''0:00''
      else
        let mins = Math_floor (rounded (js_div seconds (Fin 60)));
            secs = Math_floor (js_rem seconds (Fin 60))
        in Number_toString render mins @ '':'' @ padStart 2 ''0'' (Number_toString render secs))"

text \<open>
  A rendering to put in the place of the parameter in closed examples, none of
  which reaches it.
\<close>

definition blank :: "real \<Rightarrow> string" where
  "blank r = []"

text \<open>
  \<^verbatim>\<open>parseInt(s)\<close> with no radix: leading white space is skipped, a sign is read, the
  prefix \<^verbatim>\<open>0x\<close> selects radix 16 (radix 10 otherwise), and the longest run of
  digits of the radix is the value, rounded to a double; with no digit the result
  is \<open>NaN\<close>. A string of the model is a list of code units below 256; the white
  space among them is the space, the four controls from tab to form feed, the
  carriage return, and the no-break space.
\<close>

definition is_space :: "char \<Rightarrow> bool" where
  "is_space c =
     (c \<in> set [CHR '' '', CHR 0x09, CHR 0x0A, CHR 0x0B, CHR 0x0C, CHR 0x0D, CHR 0xA0])"

definition digit_val :: "char \<Rightarrow> nat option" where
  "digit_val c =
     (let n = (of_char c :: nat)
      in if 48 \<le> n \<and> n \<le> 57 then Some (n - 48)
         else if 97 \<le> n \<and> n \<le> 122 then Some (n - 87)
         else if 65 \<le> n \<and> n \<le> 90 then Some (n - 55)
         else None)"

definition is_digit :: "nat \<Rightarrow> char \<Rightarrow> bool" where
  "is_digit radix c = (case digit_val c of Some d \<Rightarrow> d < radix | None \<Rightarrow> False)"

definition digits_value :: "nat \<Rightarrow> string \<Rightarrow> nat" where
  "digits_value radix ds =
     foldl (\<lambda>acc c. case digit_val c of Some d \<Rightarrow> acc * radix + d | None \<Rightarrow> acc) 0 ds"

definition parseInt :: "string \<Rightarrow> jsnum" where
  "parseInt str =
     (let s1 = dropWhile is_space str;
          neg = (take 1 s1 = ''-'');
          s2 = (if take 1 s1 = ''-'' \<or> take 1 s1 = ''+'' then drop 1 s1 else s1);
          hex = (take 2 s2 = ''0x'' \<or> take 2 s2 = ''0X'');
          radix = (if hex then 16 else 10);
          s3 = (if hex then drop 2 s2 else s2);
          ds = takeWhile (is_digit radix) s3
      in if ds = [] then NaN
         else if neg then round64 (- real (digits_value radix ds))
         else round64 (real (digits_value radix ds)))"

text \<open>The slider's change event carries the control's value, a string.\<close>

definition handleVolumeChange :: "string \<Rightarrow> player \<Rightarrow> player" where
  "handleVolumeChange target_value s = s\<lparr>volume := parseInt target_value\<rparr>"

subsection \<open>Effects\<close>

text \<open>
  The listener effect (dependency \<^verbatim>\<open>audioSrc\<close>). With no element it returns at once,
  and there is no cleanup function. Otherwise it creates five closures, registers
  them, and returns the cleanup function that removes these same five closures.
\<close>

definition effect_listeners :: "player \<Rightarrow> player" where
  "effect_listeners s =
     (case audioRef s of
        Null \<Rightarrow> s\<lparr>cleanup := None\<rparr>
      | Elem \<Rightarrow>
          let g = runs s;
              a1 = addEventListener Timeupdate (UpdateTime, g) (audio s);
              a2 = addEventListener Loadedmetadata (UpdateDuration, g) a1;
              a3 = addEventListener Ended (HandleEnded, g) a2;
              a4 = addEventListener Loadstart (HandleLoadStart, g) a3;
              a5 = addEventListener Canplay (HandleCanPlay, g) a4
          in s\<lparr>audio := a5, cleanup := Some g, runs := Suc g\<rparr>)"

definition run_cleanup :: "player \<Rightarrow> player" where
  "run_cleanup s =
     (case cleanup s of
        None \<Rightarrow> s
      | Some g \<Rightarrow>
          let a1 = removeEventListener Timeupdate (UpdateTime, g) (audio s);
              a2 = removeEventListener Loadedmetadata (UpdateDuration, g) a1;
              a3 = removeEventListener Ended (HandleEnded, g) a2;
              a4 = removeEventListener Loadstart (HandleLoadStart, g) a3;
              a5 = removeEventListener Canplay (HandleCanPlay, g) a4
          in s\<lparr>audio := a5, cleanup := None\<rparr>)"

text \<open>
  The playing effect (dependency \<^verbatim>\<open>isPlaying\<close>). A rejected \<^verbatim>\<open>play()\<close> is passed to
  \<^verbatim>\<open>console.error\<close> by the \<^verbatim>\<open>catch\<close>; nothing else is done with it.
\<close>

definition effect_playing :: "play_outcome \<Rightarrow> player \<Rightarrow> player" where
  "effect_playing outcome s =
     (case audioRef s of
        Null \<Rightarrow> s
      | Elem \<Rightarrow>
          if isPlaying s then
            (case outcome of
               Resolved \<Rightarrow> s\<lparr>audio := (audio s)\<lparr>el_paused := False\<rparr>\<rparr>
             | Rejected err \<Rightarrow> s\<lparr>console := console s @ [err]\<rparr>)
          else s\<lparr>audio := (audio s)\<lparr>el_paused := True\<rparr>\<rparr>)"

text \<open>The volume effect (dependency \<^verbatim>\<open>volume\<close>).\<close>

definition effect_volume :: "player \<Rightarrow> js_error + player" where
  "effect_volume s =
     (case audioRef s of
        Null \<Rightarrow> Inr s
      | Elem \<Rightarrow>
          (case set_volume (js_div (volume s) (Fin 100)) (audio s) of
             Inl err \<Rightarrow> Inl err
           | Inr a \<Rightarrow> Inr (s\<lparr>audio := a\<rparr>)))"

subsection \<open>The life of the widget\<close>

text \<open>
  React's contract for effects: after the first render the ref is attached and every
  effect runs, in the order of the source; after a later render an effect runs when
  one of its dependencies has changed, and the cleanup function it returned before
  runs first; on unmount the ref is cleared and the cleanup function runs on the
  element it captured.
\<close>

definition mount :: "play_outcome \<Rightarrow> string \<Rightarrow> js_error + player" where
  "mount outcome src =
     effect_volume (effect_playing outcome (effect_listeners ((first_render src)\<lparr>audioRef := Elem\<rparr>)))"

definition change_src :: "string \<Rightarrow> player \<Rightarrow> player" where
  "change_src src s =
     (if src = audioSrc s then s
      else effect_listeners (run_cleanup (s\<lparr>audioSrc := src\<rparr>)))"

definition unmount :: "player \<Rightarrow> player" where
  "unmount s = run_cleanup (s\<lparr>audioRef := Null\<rparr>)"

definition run_effects :: "play_outcome \<Rightarrow> player \<Rightarrow> player \<Rightarrow> js_error + player" where
  "run_effects outcome old new =
     (let s1 = (if isPlaying new \<noteq> isPlaying old then effect_playing outcome new else new)
      in if volume s1 \<noteq> volume old then effect_volume s1 else Inr s1)"

text \<open>
  The element delivers an event to the listeners registered for its type, in the
  order of registration.
\<close>

fun run_listener :: "listener \<Rightarrow> player \<Rightarrow> player" where
  "run_listener (UpdateTime, g) s = updateTime s"
| "run_listener (UpdateDuration, g) s = updateDuration s"
| "run_listener (HandleEnded, g) s = handleEnded s"
| "run_listener (HandleLoadStart, g) s = handleLoadStart s"
| "run_listener (HandleCanPlay, g) s = handleCanPlay s"

definition dispatchEvent :: "event_type \<Rightarrow> player \<Rightarrow> player" where
  "dispatchEvent ty s =
     fold (\<lambda>(t, l) s'. if t = ty then run_listener l s' else s') (el_listeners (audio s)) s"

text \<open>
  What can happen to a mounted widget: the user acts on a control, the element
  fires an event, the browser moves the playback position or learns the duration,
  or the parent passes another \<^verbatim>\<open>audioSrc\<close>.
\<close>

datatype event =
    ClickPlayPause
  | ClickProgress mouse_event
  | ChangeVolume string
  | ClickSkipBack
  | ClickSkipForward
  | ClickLike
  | Media event_type
  | BrowserTime real
  | BrowserDuration jsnum
  | SrcChange string

fun handle :: "event \<Rightarrow> player \<Rightarrow> js_error + player" where
  "handle ClickPlayPause s = Inr (handlePlayPause s)"
| "handle (ClickProgress e) s = handleProgressClick e s"
| "handle (ChangeVolume v) s = Inr (handleVolumeChange v s)"
| "handle ClickSkipBack s = handleSkipBack s"
| "handle ClickSkipForward s = handleSkipForward s"
| "handle ClickLike s = Inr (toggleLike s)"
| "handle (Media ty) s = Inr (dispatchEvent ty s)"
| "handle (BrowserTime t) s = Inr (s\<lparr>audio := (audio s)\<lparr>el_currentTime := t\<rparr>\<rparr>)"
| "handle (BrowserDuration d) s = Inr (s\<lparr>audio := (audio s)\<lparr>el_duration := d\<rparr>\<rparr>)"
| "handle (SrcChange src) s = Inr (change_src src s)"

text \<open>One step: the handler, then the effects whose dependency it changed.\<close>

definition step :: "play_outcome \<Rightarrow> event \<Rightarrow> player \<Rightarrow> js_error + player" where
  "step outcome e s =
     (case handle e s of
        Inl err \<Rightarrow> Inl err
      | Inr s' \<Rightarrow> run_effects outcome s s')"

text \<open>A run stops at the first uncaught exception.\<close>

fun run :: "(play_outcome \<times> event) list \<Rightarrow> player \<Rightarrow> js_error + player" where
  "run [] s = Inr s"
| "run ((outcome, e) # es) s =
     (case step outcome e s of
        Inl err \<Rightarrow> Inl err
      | Inr s' \<Rightarrow> run es s')"

subsection \<open>Reachable states\<close>

text \<open>
  The listeners that one run of the listener effect registers, and the list that
  is registered while the cleanup function of that run is pending.
\<close>

definition listeners_of :: "nat \<Rightarrow> (event_type \<times> listener) list" where
  "listeners_of g =
     [(Timeupdate, (UpdateTime, g)), (Loadedmetadata, (UpdateDuration, g)),
      (Ended, (HandleEnded, g)), (Loadstart, (HandleLoadStart, g)),
      (Canplay, (HandleCanPlay, g))]"

fun registered :: "nat option \<Rightarrow> (event_type \<times> listener) list" where
  "registered None = []"
| "registered (Some g) = listeners_of g"

fun older :: "nat option \<Rightarrow> nat \<Rightarrow> bool" where
  "older None n = True"
| "older (Some g) n = (g < n)"

text \<open>
  The invariant of a mounted widget: the ref is attached, a cleanup function is
  pending, the element holds exactly the listeners of the run that returned it, and
  the next run will create closures that are not yet registered.
\<close>

definition wired :: "player \<Rightarrow> bool" where
  "wired s =
     (audioRef s = Elem \<and> cleanup s \<noteq> None \<and>
      el_listeners (audio s) = registered (cleanup s) \<and> older (cleanup s) (runs s))"

text \<open>
  A session is the mount followed by a run of events. The first render is not
  playing, so the playing effect of the mount issues \<^verbatim>\<open>pause()\<close> and the outcome
  of \<^verbatim>\<open>play()\<close> handed to \<open>mount\<close> is not used.
\<close>

definition session :: "string \<Rightarrow> (play_outcome \<times> event) list \<Rightarrow> js_error + player" where
  "session src es =
     (case mount Resolved src of Inl err \<Rightarrow> Inl err | Inr s \<Rightarrow> run es s)"

subsection \<open>The slider\<close>




section \<open>Properties\<close>

subsection \<open>Rounding to a double\<close>

lemma pow2_powi: "pow2 e = 2 powi e"
  by (simp add: pow2_def power_int_def field_simps)

lemma pow2_pos: "0 < pow2 e"
  by (simp add: pow2_powi)

lemma pow2_add: "pow2 (a + b) = pow2 a * pow2 b"
  by (simp add: pow2_powi power_int_add)

lemma pow2_diff: "pow2 (a - b) = pow2 a / pow2 b"
  by (simp add: pow2_powi power_int_diff)

lemma pow2_mono: "a \<le> b \<Longrightarrow> pow2 a \<le> pow2 b"
  by (simp add: pow2_powi power_int_increasing)

lemma pow2_strict_mono: "a < b \<Longrightarrow> pow2 a < pow2 b"
  by (simp add: pow2_powi power_int_strict_increasing)

lemma pow2_less_cancel: "pow2 a < pow2 b \<Longrightarrow> a < b"
  using pow2_mono [of b a] by (cases "a < b") auto

lemma pow2_nat: "pow2 (int n) = 2 ^ n"
  by (simp add: pow2_def)

lemma pow2_neg_nat: "pow2 (- int n) = 1 / 2 ^ n"
  by (simp add: pow2_powi power_int_minus field_simps)

lemma log2floor_bounds:
  "1 \<le> n \<Longrightarrow> 2 ^ log2floor n \<le> n \<and> n < 2 ^ Suc (log2floor n)"
proof (induction n rule: log2floor.induct)
  case (1 n)
  show ?case
  proof (cases "n < 2")
    case True
    with "1.prems" have "n = 1" by simp
    then show ?thesis by (simp add: log2floor.simps)
  next
    case False
    then have m: "1 \<le> n div 2" by simp
    from "1.IH" [OF False m]
    have ih: "2 ^ log2floor (n div 2) \<le> n div 2" "n div 2 < 2 ^ Suc (log2floor (n div 2))"
      by simp_all
    have l: "log2floor n = Suc (log2floor (n div 2))"
      using False by (subst log2floor.simps) simp
    have "2 * (n div 2) \<le> n" by simp
    with ih(1) have lo: "2 ^ Suc (log2floor (n div 2)) \<le> n" by simp
    have "n \<le> 2 * (n div 2) + 1" by presburger
    moreover from ih(2) have "n div 2 + 1 \<le> 2 ^ Suc (log2floor (n div 2))" by simp
    ultimately have hi: "n < 2 ^ Suc (Suc (log2floor (n div 2)))" by simp
    from lo hi show ?thesis by (simp only: l)
  qed
qed

lemma log2ceil_bounds:
  assumes "2 \<le> n"
  shows "2 ^ (log2ceil n - 1) < n \<and> n \<le> 2 ^ log2ceil n"
proof -
  from assms have "1 \<le> n - 1" by simp
  from log2floor_bounds [OF this]
  have "2 ^ log2floor (n - 1) \<le> n - 1" "n - 1 < 2 ^ Suc (log2floor (n - 1))" by simp_all
  then have "2 ^ log2floor (n - 1) < n" "n \<le> 2 ^ Suc (log2floor (n - 1))" by simp_all
  moreover have "log2ceil n = Suc (log2floor (n - 1))"
    using assms by (simp add: log2ceil_def)
  ultimately show ?thesis by simp
qed

lemma pow_le_of_int: "(2::int) ^ k \<le> n \<Longrightarrow> (2::real) ^ k \<le> of_int n"
proof -
  assume "(2::int) ^ k \<le> n"
  then have "(of_int ((2::int) ^ k) :: real) \<le> of_int n" by (simp only: of_int_le_iff)
  then show ?thesis by simp
qed

lemma of_int_le_pow: "n \<le> (2::int) ^ k \<Longrightarrow> of_int n \<le> (2::real) ^ k"
proof -
  assume "n \<le> (2::int) ^ k"
  then have "(of_int n :: real) \<le> of_int ((2::int) ^ k)" by (simp only: of_int_le_iff)
  then show ?thesis by simp
qed

lemma exponent_large:
  fixes a :: real
  assumes "1 \<le> a"
  shows "2 ^ log2floor \<lfloor>a\<rfloor> \<le> a \<and> a < 2 ^ Suc (log2floor \<lfloor>a\<rfloor>)"
proof -
  define n where "n = \<lfloor>a\<rfloor>"
  have n1: "1 \<le> n" using assms by (simp add: n_def)
  from log2floor_bounds [OF n1]
  have b: "2 ^ log2floor n \<le> n" "n + 1 \<le> 2 ^ Suc (log2floor n)" by simp_all
  have "of_int n \<le> a" "a < of_int (n + 1)" by (simp_all add: n_def)
  moreover have "(2::real) ^ log2floor n \<le> of_int n" using b(1) by (rule pow_le_of_int)
  moreover have "of_int (n + 1) \<le> (2::real) ^ Suc (log2floor n)" using b(2) by (rule of_int_le_pow)
  ultimately have "2 ^ log2floor n \<le> a" "a < 2 ^ Suc (log2floor n)" by linarith+
  then show ?thesis by (simp only: n_def) 
qed

lemma exponent_small:
  fixes a :: real
  assumes "0 < a" and "a < 1"
  shows "1 / 2 ^ log2ceil \<lceil>1 / a\<rceil> \<le> a \<and> a < 1 / 2 ^ (log2ceil \<lceil>1 / a\<rceil> - 1) \<and>
    1 \<le> log2ceil \<lceil>1 / a\<rceil>"
proof -
  define n where "n = \<lceil>1 / a\<rceil>"
  define K where "K = log2ceil n"
  have "1 < 1 / a" using assms by simp
  then have n2: "2 \<le> n" unfolding n_def by linarith
  from log2ceil_bounds [OF n2]
  have b: "2 ^ (K - 1) + 1 \<le> n" "n \<le> 2 ^ K" by (simp_all add: K_def)
  have c1: "1 \<le> K" using n2 by (simp add: K_def log2ceil_def)
  have n: "1 / a \<le> of_int n" "of_int n < 1 / a + 1" unfolding n_def by linarith+
  have "of_int n \<le> (2::real) ^ K" using b(2) by (rule of_int_le_pow)
  with n(1) have u: "1 / a \<le> 2 ^ K" by linarith
  have "(2::int) ^ (K - 1) \<le> n - 1" using b(1) by simp
  then have "(2::real) ^ (K - 1) \<le> of_int (n - 1)" by (rule pow_le_of_int)
  with n(2) have l: "2 ^ (K - 1) < 1 / a" by simp
  have p: "(0::real) < 2 ^ K" "(0::real) < 2 ^ (K - 1)" by simp_all
  from u have "1 \<le> 2 ^ K * a" using assms(1) by (simp add: pos_divide_le_eq)
  then have lo: "1 / 2 ^ K \<le> a" using p(1) by (simp add: pos_divide_le_eq mult.commute)
  from l have "2 ^ (K - 1) * a < 1" using assms(1) by (simp add: pos_less_divide_eq)
  then have hi: "a < 1 / 2 ^ (K - 1)" using p(2) by (simp add: pos_less_divide_eq mult.commute)
  from lo hi c1 show ?thesis by (simp only: K_def n_def) 
qed

lemma exponent_bounds:
  assumes "r \<noteq> 0"
  shows "pow2 (exponent r) \<le> \<bar>r\<bar>" and "\<bar>r\<bar> < pow2 (exponent r + 1)"
proof -
  define a where "a = \<bar>r\<bar>"
  have apos: "0 < a" using assms by (simp add: a_def)
  have "pow2 (exponent r) \<le> a \<and> a < pow2 (exponent r + 1)"
  proof (cases "1 \<le> a")
    case True
    define L where "L = log2floor \<lfloor>a\<rfloor>"
    have e: "exponent r = int L" using True by (simp add: exponent_def a_def L_def)
    have "exponent r + 1 = int (Suc L)" by (simp add: e)
    then have "pow2 (exponent r + 1) = 2 ^ Suc L" by (simp only: pow2_nat)
    moreover have "pow2 (exponent r) = 2 ^ L" by (simp only: e pow2_nat)
    ultimately show ?thesis using exponent_large [OF True] by (simp only: L_def)
  next
    case False
    then have a1: "a < 1" by simp
    define K where "K = log2ceil \<lceil>1 / a\<rceil>"
    note b = exponent_small [OF apos a1, folded K_def]
    have e: "exponent r = - int K" using False by (simp add: exponent_def a_def K_def)
    have "exponent r + 1 = - int (K - 1)" using b by (simp add: e)
    then have "pow2 (exponent r + 1) = 1 / 2 ^ (K - 1)" by (simp only: pow2_neg_nat)
    moreover have "pow2 (exponent r) = 1 / 2 ^ K" by (simp only: e pow2_neg_nat)
    ultimately show ?thesis using b by simp
  qed
  then show "pow2 (exponent r) \<le> \<bar>r\<bar>" and "\<bar>r\<bar> < pow2 (exponent r + 1)"
    by (simp_all add: a_def)
qed

lemma exponent_unique:
  assumes "pow2 e \<le> \<bar>r\<bar>" and "\<bar>r\<bar> < pow2 (e + 1)"
  shows "exponent r = e"
proof -
  have "r \<noteq> 0" using assms(1) pow2_pos [of e] by auto
  note b = exponent_bounds [OF this]
  from b(1) assms(2) have "pow2 (exponent r) < pow2 (e + 1)" by linarith
  then have "exponent r < e + 1" by (rule pow2_less_cancel)
  moreover from assms(1) b(2) have "pow2 e < pow2 (exponent r + 1)" by linarith
  then have "e < exponent r + 1" by (rule pow2_less_cancel)
  ultimately show ?thesis by simp
qed

lemma round_even_of_int: "round_even (of_int n) = n"
  by (simp add: round_even_def)

lemma round_even_ge: "of_int a \<le> x \<Longrightarrow> a \<le> round_even x"
proof -
  assume "of_int a \<le> x"
  then have "a \<le> \<lfloor>x\<rfloor>" by (simp add: le_floor_iff)
  then show ?thesis by (simp add: round_even_def)
qed

lemma round_even_less:
  assumes "x < of_int b - 1 / 2"
  shows "round_even x < b"
proof -
  have f: "of_int \<lfloor>x\<rfloor> \<le> x" by simp
  with assms have "of_int \<lfloor>x\<rfloor> < (of_int b :: real)" by linarith
  then have fb: "\<lfloor>x\<rfloor> < b" by simp
  show ?thesis
  proof (cases "x - of_int \<lfloor>x\<rfloor> < 1 / 2")
    case True
    with fb show ?thesis by (simp add: round_even_def)
  next
    case False
    with assms have "of_int \<lfloor>x\<rfloor> + 1 < (of_int b :: real)" by linarith
    then have "of_int (\<lfloor>x\<rfloor> + 1) < (of_int b :: real)" by simp
    then have "\<lfloor>x\<rfloor> + 1 < b" by (simp only: of_int_less_iff)
    with fb show ?thesis by (simp add: round_even_def)
  qed
qed

lemma pow2_nonpos_inverse: "e \<le> 0 \<Longrightarrow> 1 / pow2 e = 2 ^ nat (- e)"
proof -
  assume "e \<le> 0"
  then have "e = - int (nat (- e))" by simp
  then have "pow2 e = 1 / 2 ^ nat (- e)" by (metis pow2_neg_nat)
  then show ?thesis by simp
qed

lemma pow2_53: "pow2 53 = 2 ^ 53"
  using pow2_nat [of 53] by simp

lemma round64_exact_strict:
  assumes m: "\<bar>m\<bar> < 2 ^ 53" and k: "- 1074 \<le> k"
    and fin: "\<bar>of_int m * pow2 k\<bar> < 2 ^ 1024"
  shows "round64 (of_int m * pow2 k) = Fin (of_int m * pow2 k)"
proof (cases "m = 0")
  case True
  then show ?thesis by (simp add: round64_def)
next
  case False
  define r where "r = of_int m * pow2 k"
  have r0: "r \<noteq> 0" using False pow2_pos [of k] by (simp add: r_def)
  define E where "E = max (exponent r) (- 1022)"
  define j where "j = k - (E - 52)"
  have "(of_int \<bar>m\<bar> :: real) < of_int (2 ^ 53)" using m by (simp only: of_int_less_iff)
  then have "\<bar>of_int m :: real\<bar> < pow2 53" by (simp add: pow2_53)
  then have "\<bar>of_int m\<bar> * pow2 k < pow2 53 * pow2 k"
    using pow2_pos [of k] by (simp only: mult_strict_right_mono)
  then have "\<bar>r\<bar> < pow2 (53 + k)"
    using pow2_pos [of k] by (simp add: r_def abs_mult pow2_add)
  with exponent_bounds(1) [OF r0] have "pow2 (exponent r) < pow2 (53 + k)" by linarith
  then have "exponent r < 53 + k" by (rule pow2_less_cancel)
  with k have j0: "0 \<le> j" by (simp add: j_def E_def)
  have "pow2 k = pow2 (j + (E - 52))" by (simp add: j_def)
  then have pk: "pow2 k = pow2 j * pow2 (E - 52)" by (simp only: pow2_add)
  have pj: "pow2 j = of_int (2 ^ nat j)" using j0 by (simp add: pow2_def)
  have "r / pow2 (E - 52) = of_int m * pow2 j"
    using pow2_pos [of "E - 52"] by (simp add: r_def pk)
  then have q: "r / pow2 (E - 52) = of_int (m * 2 ^ nat j)" by (simp add: pj)
  have re: "round_even (r / pow2 (E - 52)) = m * 2 ^ nat j"
    by (simp only: q round_even_of_int)
  have "of_int (m * 2 ^ nat j) * pow2 (E - 52) = r"
    by (simp add: r_def pk pj)
  then have y: "of_int (round_even (r / pow2 (E - 52))) * pow2 (E - 52) = r"
    by (simp only: re)
  have "\<not> 2 ^ 1024 \<le> \<bar>r\<bar>" using fin by (simp add: r_def)
  then have "round64 r = Fin r"
    using r0 by (simp add: round64_def Let_def E_def [symmetric] y)
  then show ?thesis by (simp only: r_def)
qed

lemma round64_int:
  assumes "\<bar>n\<bar> < 2 ^ 53"
  shows "round64 (of_int n) = Fin (of_int n)"
proof -
  have "(of_int \<bar>n\<bar> :: real) < of_int (2 ^ 53)" using assms by (simp only: of_int_less_iff)
  then have "\<bar>of_int n :: real\<bar> < 2 ^ 53" by simp
  moreover have "(2::real) ^ 53 < 2 ^ 1024" by simp
  ultimately have "\<bar>of_int n * pow2 0\<bar> < 2 ^ 1024" by (simp add: pow2_def)
  from round64_exact_strict [OF assms _ this] show ?thesis by (simp add: pow2_def)
qed

lemma round64_cases:
  assumes "r \<noteq> 0"
  defines "y \<equiv> of_int (round_even (r / pow2 (max (exponent r) (- 1022) - 52))) *
      pow2 (max (exponent r) (- 1022) - 52)"
  shows "\<bar>y\<bar> < 2 ^ 1024 \<Longrightarrow> round64 r = Fin y"
    and "2 ^ 1024 \<le> \<bar>y\<bar> \<Longrightarrow> round64 r = (if 0 < r then PInf else NInf)"
  using assms(1) unfolding y_def round64_def Let_def by simp_all

lemma double_multiple:
  assumes d: "round64 s = Fin s" and s0: "s \<noteq> 0"
  shows "\<exists>m. s = of_int m * pow2 (max (exponent s) (- 1022) - 52)"
proof -
  define y where "y = of_int (round_even (s / pow2 (max (exponent s) (- 1022) - 52))) *
      pow2 (max (exponent s) (- 1022) - 52)"
  have "y = s"
  proof (cases "\<bar>y\<bar> < 2 ^ 1024")
    case True
    then have "round64 s = Fin y" unfolding y_def by (rule round64_cases(1) [OF s0])
    with d show ?thesis by simp
  next
    case False
    then have "2 ^ 1024 \<le> \<bar>y\<bar>" by simp
    then have "round64 s = (if 0 < s then PInf else NInf)"
      unfolding y_def by (rule round64_cases(2) [OF s0])
    with d show ?thesis by (simp split: if_splits)
  qed
  then show ?thesis unfolding y_def by metis
qed

lemma pow2_numeral_50: "pow2 50 = 2 ^ 50"
  using pow2_nat [of 50] by simp

lemma pow2_nonneg_int: "0 \<le> e \<Longrightarrow> pow2 e = of_int (2 ^ nat e)"
  by (simp add: pow2_def)

lemma quotient_gap_subnormal:
  assumes x0: "0 < x" and e: "exponent x < - 1022"
  shows "\<lfloor>x\<rfloor> = 0" and "pow2 (- 1074) / 2 < 1 - x"
proof -
  have "x \<noteq> 0" using x0 by simp
  from exponent_bounds(2) [OF this] have "x < pow2 (exponent x + 1)" using x0 by simp
  moreover have "pow2 (exponent x + 1) \<le> pow2 (- 1)" using e by (intro pow2_mono) simp
  moreover have "pow2 (- 1) = 1 / 2" by (simp add: pow2_def)
  ultimately have xh: "x < 1 / 2" by linarith
  with x0 show "\<lfloor>x\<rfloor> = 0" by (simp add: floor_eq_iff)
  have "pow2 (- 1074) \<le> pow2 0" by (intro pow2_mono) simp
  moreover have "pow2 0 = 1" by (simp add: pow2_def)
  ultimately show "pow2 (- 1074) / 2 < 1 - x" using xh by linarith
qed

lemma quotient_gap_normal:
  assumes d: "round64 s = Fin s" and s0: "0 < s" and s50: "s < 60 * 2 ^ 50"
    and e: "- 1022 \<le> exponent (s / 60)" and k: "s < 60 * of_int k"
  shows "pow2 (exponent (s / 60) - 52) / 2 < of_int k - s / 60"
proof -
  define x where "x = s / 60"
  define e where "e = exponent x"
  define Es where "Es = max (exponent s) (- 1022)"
  define G where "G = min (Es - 52) 2"
  define g where "g = pow2 G"
  define u where "u = pow2 (e - 52)"
  have x0: "0 < x" using s0 by (simp add: x_def)
  have sx: "s = 60 * x" by (simp add: x_def)
  have sne: "s \<noteq> 0" and xne: "x \<noteq> 0" using s0 x0 by simp_all
  have upos: "0 < u" and gpos: "0 < g" by (simp_all add: u_def g_def pow2_pos)
  have p5: "pow2 5 = 32" by (simp add: pow2_def)
  \<comment> \<open>the exponent of \<open>s\<close> is at least five more than that of the quotient\<close>
  have xe: "pow2 e \<le> x" using exponent_bounds(1) [OF xne] x0 by (simp add: e_def)
  have "pow2 (e + 5) = pow2 e * 32" by (simp only: pow2_add p5)
  with xe have "pow2 (e + 5) \<le> 32 * x" by simp
  with x0 have "pow2 (e + 5) \<le> s" by (simp add: sx)
  moreover have "s < pow2 (exponent s + 1)" using exponent_bounds(2) [OF sne] s0 by simp
  ultimately have "pow2 (e + 5) < pow2 (exponent s + 1)" by linarith
  then have "e + 5 < exponent s + 1" by (rule pow2_less_cancel)
  then have g1: "e - 52 + 5 \<le> Es - 52" by (simp add: Es_def)
  \<comment> \<open>the quotient is below \<open>2\<^sup>5\<^sup>0\<close>\<close>
  have "x < 2 ^ 50" using s50 by (simp add: x_def)
  with xe have "pow2 e < pow2 50" by (simp add: pow2_numeral_50)
  then have "e < 50" by (rule pow2_less_cancel)
  then have g2: "e - 52 + 5 \<le> 2" by simp
  from g1 g2 have "e - 52 + 5 \<le> G" by (simp add: G_def)
  then have "pow2 (e - 52 + 5) \<le> g" unfolding g_def by (rule pow2_mono)
  moreover have "pow2 (e - 52 + 5) = pow2 (e - 52) * 32" by (simp only: pow2_add p5)
  ultimately have big: "32 * u \<le> g" by (simp add: u_def)
  \<comment> \<open>\<open>s\<close> and \<open>60 k\<close> are multiples of \<open>g\<close>\<close>
  from double_multiple [OF d sne] obtain m where m: "s = of_int m * pow2 (Es - 52)"
    by (auto simp: Es_def)
  have "0 \<le> Es - 52 - G" by (simp add: G_def)
  then have "pow2 (Es - 52 - G) = of_int (2 ^ nat (Es - 52 - G))" by (rule pow2_nonneg_int)
  moreover have "pow2 (Es - 52) = pow2 (Es - 52 - G) * g"
    using pow2_add [of "Es - 52 - G" G] by (simp add: g_def)
  ultimately have "s = of_int m * (of_int (2 ^ nat (Es - 52 - G)) * g)" by (simp only: m)
  then have sa: "s = of_int (m * 2 ^ nat (Es - 52 - G)) * g" by simp
  have "0 \<le> 2 - G" by (simp add: G_def)
  then have "pow2 (2 - G) = of_int (2 ^ nat (2 - G))" by (rule pow2_nonneg_int)
  moreover have "pow2 2 = pow2 (2 - G) * g"
    using pow2_add [of "2 - G" G] by (simp add: g_def)
  moreover have "pow2 2 = 4" by (simp add: pow2_def)
  ultimately have four: "4 = of_int (2 ^ nat (2 - G)) * g" by simp
  have "60 * of_int k = of_int (15 * k) * (4::real)" by simp
  also have "\<dots> = of_int (15 * k) * (of_int (2 ^ nat (2 - G)) * g)" by (simp only: four [symmetric])
  finally have kb: "60 * of_int k = of_int (15 * k * 2 ^ nat (2 - G)) * g" by simp
  define a where "a = m * 2 ^ nat (Es - 52 - G)"
  define b where "b = 15 * k * 2 ^ nat (2 - G)"
  from k have "of_int a * g < of_int b * g" by (simp only: a_def b_def sa [symmetric] kb [symmetric])
  then have "(of_int a :: real) < of_int b" using gpos by (simp only: mult_less_cancel_right_pos)
  then have "a < b" by (simp only: of_int_less_iff)
  then have "a + 1 \<le> b" by simp
  then have "(of_int (a + 1) :: real) \<le> of_int b" by (simp only: of_int_le_iff)
  then have "of_int (a + 1) * g \<le> of_int b * g"
    using gpos by (simp only: mult_le_cancel_right_pos)
  moreover have "of_int (a + 1) * g = s + g" by (simp add: sa a_def algebra_simps)
  moreover have "of_int b * g = 60 * of_int k" by (simp only: kb b_def)
  ultimately have "s + g \<le> 60 * of_int k" by simp
  with big have "30 * u < 60 * of_int k - s" using upos by linarith
  then have "u / 2 < of_int k - s / 60" by simp
  then show ?thesis by (simp add: u_def e_def x_def)
qed

lemma quotient_60:
  assumes d: "round64 s = Fin s" and s0: "0 < s" and s53: "s < 60 * 2 ^ 50"
  shows "\<exists>q. round64 (s / 60) = Fin q \<and> of_int \<lfloor>s / 60\<rfloor> \<le> q \<and> q < of_int \<lfloor>s / 60\<rfloor> + 1"
proof -
  define x where "x = s / 60"
  define k where "k = \<lfloor>x\<rfloor> + 1"
  define E where "E = max (exponent x) (- 1022)"
  define u where "u = pow2 (E - 52)"
  define y where "y = of_int (round_even (x / u)) * u"
  have x0: "0 < x" and xne: "x \<noteq> 0" using s0 by (simp_all add: x_def)
  have k1: "of_int k - 1 \<le> x" and k2: "x < of_int k" by (simp_all add: k_def)
  have upos: "0 < u" by (simp add: u_def pow2_pos)
  \<comment> \<open>the quotient is below \<open>2\<^sup>5\<^sup>0\<close>, so its unit divides 1\<close>
  have x50: "x < 2 ^ 50" using s53 by (simp add: x_def)
  then have x48: "x < pow2 50" by (simp add: pow2_numeral_50)
  have "pow2 (exponent x) \<le> x" using exponent_bounds(1) [OF xne] x0 by simp
  with x48 have "pow2 (exponent x) < pow2 50" by linarith
  then have "exponent x < 50" by (rule pow2_less_cancel)
  then have E0: "E - 52 \<le> 0" by (simp add: E_def)
  define N where "N = (2::int) ^ nat (- (E - 52))"
  have "1 / u = 2 ^ nat (- (E - 52))" unfolding u_def using E0 by (rule pow2_nonpos_inverse)
  then have Nu: "of_int N * u = 1" using upos by (simp add: N_def field_simps)
  have Npos: "0 < (of_int N :: real)" by (simp add: N_def)
  have xu: "x / u = x * of_int N" using Nu upos by (simp add: field_simps)
  \<comment> \<open>the distance of the quotient to the next integer is more than half a unit\<close>
  have gap: "u / 2 < of_int k - x"
  proof (cases "exponent x < - 1022")
    case True
    from quotient_gap_subnormal [OF x0 True]
    have "\<lfloor>x\<rfloor> = 0" and "pow2 (- 1074) / 2 < 1 - x" by simp_all
    moreover have "E = - 1022" using True by (simp add: E_def)
    ultimately show ?thesis by (simp add: u_def k_def)
  next
    case False
    then have n: "- 1022 \<le> exponent (s / 60)" by (simp add: x_def)
    have "s < 60 * of_int k" using k2 by (simp add: x_def)
    from quotient_gap_normal [OF d s0 s53 n this]
    have "pow2 (exponent x - 52) / 2 < of_int k - x" by (simp add: x_def)
    moreover have "E = exponent x" using False by (simp add: E_def)
    ultimately show ?thesis by (simp add: u_def)
  qed
  \<comment> \<open>so the rounded quotient stays in \<open>[k - 1, k)\<close>\<close>
  have "(of_int k - 1) * of_int N \<le> x * of_int N"
    using k1 Npos by (simp only: mult_le_cancel_right_pos)
  then have "of_int ((k - 1) * N) \<le> x / u" by (simp add: xu)
  then have lo: "(k - 1) * N \<le> round_even (x / u)" by (rule round_even_ge)
  have "1 / 2 < (of_int k - x) / u" using gap upos by (simp add: field_simps)
  also have "(of_int k - x) / u = of_int (k * N) - x / u"
    using Nu upos by (simp add: field_simps)
  finally have "x / u < of_int (k * N) - 1 / 2" by simp
  then have hi: "round_even (x / u) < k * N" by (rule round_even_less)
  from lo have "(of_int ((k - 1) * N) :: real) \<le> of_int (round_even (x / u))"
    by (simp only: of_int_le_iff)
  then have "of_int ((k - 1) * N) * u \<le> y"
    unfolding y_def using upos by (simp only: mult_le_cancel_right_pos)
  moreover have "of_int ((k - 1) * N) * u = (of_int k - 1) * (of_int N * u)" by simp
  then have "of_int ((k - 1) * N) * u = of_int k - 1" by (simp only: Nu mult_1_right)
  ultimately have ylo: "of_int k - 1 \<le> y" by linarith
  from hi have "(of_int (round_even (x / u)) :: real) < of_int (k * N)"
    by (simp only: of_int_less_iff)
  then have "y < of_int (k * N) * u"
    unfolding y_def using upos by (simp only: mult_less_cancel_right_pos)
  moreover have "of_int (k * N) * u = of_int k * (of_int N * u)" by simp
  then have "of_int (k * N) * u = of_int k" by (simp only: Nu mult_1_right)
  ultimately have yhi: "y < of_int k" by linarith
  have "0 \<le> \<lfloor>x\<rfloor>" using x0 by simp
  then have "0 \<le> (of_int k :: real) - 1" by (simp add: k_def)
  with ylo have y0: "0 \<le> y" by linarith
  have "of_int k < (2::real) ^ 50 + 1" using k1 x50 by linarith
  moreover have "(2::real) ^ 50 + 1 < 2 ^ 1024" by simp
  ultimately have "\<bar>y\<bar> < 2 ^ 1024" using yhi y0 by linarith
  then have "round64 x = Fin y"
    unfolding y_def u_def E_def by (rule round64_cases(1) [OF xne])
  with ylo yhi show ?thesis by (auto simp: x_def k_def)
qed

lemma quotient_floor:
  assumes d: "round64 s = Fin s" and s0: "0 \<le> s" and s53: "s < 60 * 2 ^ 50"
  shows "\<exists>q. round64 (s / 60) = Fin q \<and> \<lfloor>q\<rfloor> = \<lfloor>s / 60\<rfloor>"
proof (cases "s = 0")
  case True
  then show ?thesis by (simp add: round64_def)
next
  case False
  with s0 have "0 < s" by simp
  from quotient_60 [OF d this s53] obtain q where
    q: "round64 (s / 60) = Fin q" "of_int \<lfloor>s / 60\<rfloor> \<le> q" "q < of_int \<lfloor>s / 60\<rfloor> + 1"
    by blast
  from q(2,3) have "\<lfloor>q\<rfloor> = \<lfloor>s / 60\<rfloor>" by (simp add: floor_eq_iff)
  with q(1) show ?thesis by blast
qed

lemma round64_eval:
  assumes "pow2 e \<le> \<bar>r\<bar>" and "\<bar>r\<bar> < pow2 (e + 1)" and "- 1022 \<le> e"
    and "round_even (r / pow2 (e - 52)) = m"
    and "\<bar>of_int m * pow2 (e - 52)\<bar> < 2 ^ 1024"
  shows "round64 r = Fin (of_int m * pow2 (e - 52))"
proof -
  have e: "exponent r = e" using assms(1,2) by (rule exponent_unique)
  have r0: "r \<noteq> 0" using assms(1) pow2_pos [of e] by auto
  have mx: "max (exponent r) (- 1022) = e" using assms(3) by (simp add: e)
  have "\<bar>of_int (round_even (r / pow2 (max (exponent r) (- 1022) - 52))) *
      pow2 (max (exponent r) (- 1022) - 52)\<bar> < 2 ^ 1024"
    using assms(5) by (simp only: mx assms(4))
  from round64_cases(1) [OF r0 this] show ?thesis by (simp only: mx assms(4))
qed

lemma round64_nonneg:
  assumes "0 \<le> r" and "round64 r = Fin q"
  shows "0 \<le> q"
proof (cases "r = 0")
  case True
  with assms(2) show ?thesis by (simp add: round64_def)
next
  case False
  define u where "u = pow2 (max (exponent r) (- 1022) - 52)"
  define y where "y = of_int (round_even (r / u)) * u"
  have upos: "0 < u" by (simp add: u_def pow2_pos)
  then have "of_int 0 \<le> r / u" using assms(1) by simp
  then have "0 \<le> round_even (r / u)" by (rule round_even_ge)
  then have y0: "0 \<le> y" using upos by (simp add: y_def)
  show ?thesis
  proof (cases "\<bar>y\<bar> < 2 ^ 1024")
    case True
    then have "round64 r = Fin y" unfolding y_def u_def by (rule round64_cases(1) [OF False])
    with assms(2) y0 show ?thesis by simp
  next
    case False
    then have "2 ^ 1024 \<le> \<bar>y\<bar>" by simp
    then have "round64 r = (if 0 < r then PInf else NInf)"
      unfolding y_def u_def by (rule round64_cases(2) [OF \<open>r \<noteq> 0\<close>])
    with assms(2) show ?thesis by (simp split: if_splits)
  qed
qed

lemma round64_49th: "round64 (1 / 49) = Fin (5882252574524729 / 2 ^ 58)"
proof -
  have "round64 (1 / 49) = Fin (of_int 5882252574524729 * pow2 (- 6 - 52))"
    by (rule round64_eval) (simp_all add: pow2_def round_even_def)
  then show ?thesis by (simp add: pow2_def)
qed

lemma round64_49th_times_49:
  "round64 (5882252574524729 / 2 ^ 58 * 49) = Fin (1 - 1 / 2 ^ 53)"
proof -
  have "round64 (5882252574524729 / 2 ^ 58 * 49) = Fin (of_int 9007199254740991 * pow2 (- 1 - 52))"
    by (rule round64_eval) (simp_all add: pow2_def round_even_def)
  then show ?thesis by (simp add: pow2_def)
qed

lemma round64_big_quotient:
  "round64 ((60 * 2 ^ 50 + 56) / 60) = Fin 1125899906842625"
proof -
  have "round64 ((60 * 2 ^ 50 + 56) / 60) = Fin (of_int 4503599627370500 * pow2 (50 - 52))"
    by (rule round64_eval) (simp_all add: pow2_def round_even_def)
  then show ?thesis by (simp add: pow2_def)
qed

lemma round64_half_minutes: "round64 (7451 / 2) = Fin (7451 / 2)"
proof -
  have "round64 (of_int 7451 * pow2 (- 1)) = Fin (of_int 7451 * pow2 (- 1))"
    by (rule round64_exact_strict) (simp_all add: pow2_def)
  then show ?thesis by (simp add: pow2_def)
qed

lemma round64_big_seconds: "round64 (60 * 2 ^ 50 + 56) = Fin (60 * 2 ^ 50 + 56)"
proof -
  have "round64 (of_int 8444249301319687 * pow2 3) = Fin (of_int 8444249301319687 * pow2 3)"
    by (rule round64_exact_strict) (simp_all add: pow2_def)
  then show ?thesis by (simp add: pow2_def)
qed

lemma round64_100: "round64 100 = Fin 100"
  using round64_int [of 100] by simp

lemma round64_50: "round64 50 = Fin 50"
  using round64_int [of 50] by simp

lemma round64_1: "round64 1 = Fin 1"
  using round64_int [of 1] by simp

lemma round64_quarter: "round64 (1 / 4) = Fin (1 / 4)"
proof -
  have "round64 (of_int 1 * pow2 (- 2)) = Fin (of_int 1 * pow2 (- 2))"
    by (rule round64_exact_strict) (simp_all add: pow2_def)
  then show ?thesis by (simp add: pow2_def)
qed

subsection \<open>Numerals and \<^verbatim>\<open>parseInt\<close>\<close>
















subsection \<open>Rendering a time\<close>

lemma digits10_small: "k < 10 \<Longrightarrow> digits10 k = [digit_char k]"
  by (subst digits10.simps) simp

lemma digits10_two: "10 \<le> k \<Longrightarrow> k < 100 \<Longrightarrow> digits10 k = two_digits k"
  by (subst digits10.simps) (simp add: digits10_small two_digits_def)

lemma padStart_two: "k < 100 \<Longrightarrow> padStart 2 ''0'' (digits10 k) = two_digits k"
proof (cases "k < 10")
  case True
  then show ?thesis
    by (simp add: digits10_small padStart_def two_digits_def digit_char_def)
next
  case False
  assume "k < 100"
  with False show ?thesis by (simp add: digits10_two padStart_def two_digits_def)
qed

lemma Number_toString_nat:
  "n < 2 ^ 53 \<Longrightarrow> Number_toString render (Fin (real n)) = digits10 n"
proof -
  assume "n < 2 ^ 53"
  then have "real n < real (2 ^ 53)" by (simp only: of_nat_less_iff)
  then have "\<bar>real n\<bar> < 2 ^ 53" by simp
  then show ?thesis by simp
qed

lemma floor_parts:
  fixes s :: real
  assumes "0 \<le> s"
  defines "m \<equiv> \<lfloor>s / 60\<rfloor>"
  shows "0 \<le> m" and "0 \<le> s - 60 * of_int m" and "s - 60 * of_int m < 60"
proof -
  have "0 \<le> s / 60" using assms(1) by simp
  then show "0 \<le> m" unfolding m_def by simp
  have "of_int m \<le> s / 60" unfolding m_def by (rule of_int_floor_le)
  then show "0 \<le> s - 60 * of_int m" by simp
  have "s / 60 < of_int m + 1" unfolding m_def by linarith
  then show "s - 60 * of_int m < 60" by simp
qed

lemma seconds_below_60:
  fixes s :: real
  assumes "0 \<le> s"
  shows "nat \<lfloor>s - 60 * of_int \<lfloor>s / 60\<rfloor>\<rfloor> < 60"
  using floor_parts(2,3) [OF assms] by linarith

text \<open>
  The guard of \<open>formatTime\<close> is \<^verbatim>\<open>isNaN\<close>, so an infinite argument is not caught by
  it: an unbounded duration is rendered as follows.
\<close>

lemma formatTime_infinite: "formatTime render PInf = ''Infinity:NaN''"
  by (simp add: formatTime_def padStart_def)

lemma formatTime_finite:
  assumes s0: "0 \<le> s" and q: "round64 (s / 60) = Fin q" and q53: "q < 2 ^ 53"
  shows "formatTime render (Fin s) =
     digits10 (nat \<lfloor>q\<rfloor>) @ '':'' @ two_digits (nat \<lfloor>s - 60 * of_int \<lfloor>s / 60\<rfloor>\<rfloor>)"
proof -
  define m where "m = \<lfloor>s / 60\<rfloor>"
  define k where "k = nat \<lfloor>s - 60 * of_int m\<rfloor>"
  define n where "n = nat \<lfloor>q\<rfloor>"
  note fp = floor_parts [OF s0, folded m_def]
  have tr: "trunc (s / 60) = m" using s0 by (simp add: trunc_def m_def)
  have kfl: "\<lfloor>s - 60 * of_int m\<rfloor> = int k"
    using fp(2) by (simp add: k_def)
  have "\<lfloor>s - 60 * of_int m\<rfloor> < 60" using fp(3) by linarith
  then have k60: "k < 60" using kfl by linarith
  then have k53: "k < 2 ^ 53" by simp
  have secs: "Math_floor (js_rem (Fin s) (Fin 60)) = Fin (real k)"
    by (simp add: tr kfl)
  have "0 \<le> s / 60" using s0 by simp
  then have q0: "0 \<le> q" using q by (rule round64_nonneg)
  then have nfl: "of_int \<lfloor>q\<rfloor> = real n" by (simp add: n_def)
  have "real n \<le> q" using nfl of_int_floor_le [of q] by linarith
  with q53 have "real n < real (2 ^ 53)" by simp
  then have n53: "n < 2 ^ 53" by (simp only: of_nat_less_iff)
  have mins: "Math_floor (rounded (js_div (Fin s) (Fin 60))) = Fin (real n)"
    by (simp add: q nfl)
  have pad: "padStart 2 ''0'' (Number_toString render (Fin (real k))) = two_digits k"
    using k60 by (simp only: Number_toString_nat [OF k53]) (simp add: padStart_two)
  have ms: "Number_toString render (Fin (real n)) = digits10 n"
    using n53 by (rule Number_toString_nat)
  have "formatTime render (Fin s) = digits10 n @ '':'' @ two_digits k"
    unfolding formatTime_def Let_def secs mins ms pad by (simp only: js_isNaN.simps if_False)
  then show ?thesis by (simp only: n_def k_def m_def)
qed

lemma formatTime_double:
  assumes d: "round64 s = Fin s" and s0: "0 \<le> s" and s50: "s < 60 * 2 ^ 50"
  shows "formatTime render (Fin s) =
     digits10 (nat \<lfloor>s / 60\<rfloor>) @ '':'' @ two_digits (nat \<lfloor>s - 60 * of_int \<lfloor>s / 60\<rfloor>\<rfloor>)"
proof -
  from quotient_floor [OF d s0 s50] obtain q where
    q: "round64 (s / 60) = Fin q" "\<lfloor>q\<rfloor> = \<lfloor>s / 60\<rfloor>" by blast
  have "q < of_int \<lfloor>q\<rfloor> + 1" by linarith
  moreover have "of_int \<lfloor>s / 60\<rfloor> \<le> s / 60" by (rule of_int_floor_le)
  moreover have "s / 60 < 2 ^ 50" using s50 by simp
  ultimately have "q < 2 ^ 50 + 1" by (simp add: q(2))
  then have "q < 2 ^ 53" by simp
  from formatTime_finite [OF s0 q(1) this] show ?thesis by (simp only: q(2))
qed

subsection \<open>Listeners stay wired\<close>

lemma mount_eq:
  "mount outcome src = Inr ((first_render src)\<lparr>audioRef := Elem,
      audio := new_audio\<lparr>el_volume := 3 / 4, el_listeners := listeners_of 0\<rparr>,
      cleanup := Some 0, runs := Suc 0\<rparr>)"
  by (simp add: mount_def first_render_def effect_listeners_def effect_playing_def
      effect_volume_def new_audio_def addEventListener_def listeners_of_def)

lemma wired_mount: "mount outcome src = Inr s \<Longrightarrow> wired s"
  by (auto simp: mount_eq wired_def)

lemma run_cleanup_wired:
  "wired s \<Longrightarrow> run_cleanup s = s\<lparr>audio := (audio s)\<lparr>el_listeners := []\<rparr>, cleanup := None\<rparr>"
  by (auto simp: wired_def run_cleanup_def removeEventListener_def listeners_of_def
      split: option.splits)

lemma effect_listeners_empty:
  "audioRef s = Elem \<Longrightarrow> el_listeners (audio s) = [] \<Longrightarrow>
   effect_listeners s =
     s\<lparr>audio := (audio s)\<lparr>el_listeners := listeners_of (runs s)\<rparr>,
       cleanup := Some (runs s), runs := Suc (runs s)\<rparr>"
  by (simp add: effect_listeners_def addEventListener_def listeners_of_def Let_def)

lemma wired_change_src: "wired s \<Longrightarrow> wired (change_src src s)"
proof -
  assume w: "wired s"
  then have w': "wired (s\<lparr>audioSrc := src\<rparr>)" by (simp add: wired_def split: option.splits)
  show ?thesis
  proof (cases "src = audioSrc s")
    case True
    with w show ?thesis by (simp add: change_src_def)
  next
    case False
    have "audioRef s = Elem" using w by (simp add: wired_def)
    then show ?thesis
      using False by (simp add: change_src_def run_cleanup_wired [OF w']
          effect_listeners_empty wired_def)
  qed
qed

lemma dispatchEvent_wired:
  "wired s \<Longrightarrow> dispatchEvent ty s =
     (case ty of Timeupdate \<Rightarrow> updateTime s | Loadedmetadata \<Rightarrow> updateDuration s
      | Ended \<Rightarrow> handleEnded s | Loadstart \<Rightarrow> handleLoadStart s | Canplay \<Rightarrow> handleCanPlay s)"
  by (cases ty) (auto simp: wired_def dispatchEvent_def listeners_of_def split: option.splits)

lemma set_currentTime_frame:
  "set_currentTime v a = Inr a' \<Longrightarrow> \<exists>r. v = Fin r \<and> a' = a\<lparr>el_currentTime := r\<rparr>"
  by (cases v) auto

lemma set_volume_frame:
  "set_volume v a = Inr a' \<Longrightarrow> \<exists>r. v = Fin r \<and> 0 \<le> r \<and> r \<le> 1 \<and> a' = a\<lparr>el_volume := r\<rparr>"
  by (cases v) (auto split: if_splits)

lemma handleProgressClick_frame:
  "handleProgressClick e s = Inr s' \<Longrightarrow>
   \<exists>t c. s' = s\<lparr>audio := (audio s)\<lparr>el_currentTime := t\<rparr>, currentTime := c\<rparr>"
proof (cases "audioRef s = Null \<or> \<not> js_truthy (duration s)")
  case True
  assume "handleProgressClick e s = Inr s'"
  with True have "s' = s" by (auto simp: handleProgressClick_def)
  then have "s' = s\<lparr>audio := (audio s)\<lparr>el_currentTime := el_currentTime (audio s)\<rparr>, currentTime := currentTime s\<rparr>"
    by simp
  then show ?thesis by blast
next
  case False
  assume "handleProgressClick e s = Inr s'"
  with False show ?thesis
    by (auto simp: handleProgressClick_def Let_def split: sum.splits dest!: set_currentTime_frame)
qed

lemma handleSkipBack_frame:
  "handleSkipBack s = Inr s' \<Longrightarrow> \<exists>t. s' = s\<lparr>audio := (audio s)\<lparr>el_currentTime := t\<rparr>\<rparr>"
proof (cases "audioRef s")
  case Null
  assume "handleSkipBack s = Inr s'"
  with Null have "s' = s\<lparr>audio := (audio s)\<lparr>el_currentTime := el_currentTime (audio s)\<rparr>\<rparr>"
    by (auto simp: handleSkipBack_def)
  then show ?thesis by blast
next
  case Elem
  assume "handleSkipBack s = Inr s'"
  with Elem show ?thesis
    by (auto simp: handleSkipBack_def split: sum.splits dest!: set_currentTime_frame)
qed

lemma handleSkipForward_frame:
  "handleSkipForward s = Inr s' \<Longrightarrow> \<exists>t. s' = s\<lparr>audio := (audio s)\<lparr>el_currentTime := t\<rparr>\<rparr>"
proof (cases "audioRef s")
  case Null
  assume "handleSkipForward s = Inr s'"
  with Null have "s' = s\<lparr>audio := (audio s)\<lparr>el_currentTime := el_currentTime (audio s)\<rparr>\<rparr>"
    by (auto simp: handleSkipForward_def)
  then show ?thesis by blast
next
  case Elem
  assume "handleSkipForward s = Inr s'"
  with Elem show ?thesis
    by (auto simp: handleSkipForward_def split: sum.splits dest!: set_currentTime_frame)
qed

lemma wired_handle: "wired s \<Longrightarrow> handle e s = Inr s' \<Longrightarrow> wired s'"
proof (cases e)
  case (ClickProgress m)
  assume "wired s" "handle e s = Inr s'"
  with ClickProgress show ?thesis
    by (auto dest!: handleProgressClick_frame simp: wired_def)
next
  case ClickSkipBack
  assume "wired s" "handle e s = Inr s'"
  with ClickSkipBack show ?thesis
    by (auto dest!: handleSkipBack_frame simp: wired_def)
next
  case ClickSkipForward
  assume "wired s" "handle e s = Inr s'"
  with ClickSkipForward show ?thesis
    by (auto dest!: handleSkipForward_frame simp: wired_def)
next
  case (Media ty)
  assume "wired s" "handle e s = Inr s'"
  with Media show ?thesis
    by (cases ty) (auto simp: dispatchEvent_wired wired_def updateTime_def updateDuration_def
        handleEnded_def handleLoadStart_def handleCanPlay_def)
next
  case (SrcChange src)
  assume "wired s" "handle e s = Inr s'"
  with SrcChange show ?thesis by (auto simp: wired_change_src)
qed (auto simp: wired_def handlePlayPause_def handleVolumeChange_def toggleLike_def)

lemma effect_playing_frame:
  "\<exists>p c. effect_playing outcome s = s\<lparr>audio := (audio s)\<lparr>el_paused := p\<rparr>, console := c\<rparr>"
proof -
  have same: "s = s\<lparr>audio := (audio s)\<lparr>el_paused := el_paused (audio s)\<rparr>, console := console s\<rparr>"
    by simp
  show ?thesis
  proof (cases "audioRef s")
    case Null
    then have "effect_playing outcome s = s" by (simp add: effect_playing_def)
    with same show ?thesis by metis
  next
    case Elem
    show ?thesis
    proof (cases "isPlaying s")
      case False
      with Elem have "effect_playing outcome s =
          s\<lparr>audio := (audio s)\<lparr>el_paused := True\<rparr>, console := console s\<rparr>"
        by (simp add: effect_playing_def)
      then show ?thesis by blast
    next
      case True
      show ?thesis
      proof (cases outcome)
        case Resolved
        with True Elem have "effect_playing outcome s =
            s\<lparr>audio := (audio s)\<lparr>el_paused := False\<rparr>, console := console s\<rparr>"
          by (simp add: effect_playing_def)
        then show ?thesis by blast
      next
        case (Rejected err)
        with True Elem have "effect_playing outcome s =
            s\<lparr>audio := (audio s)\<lparr>el_paused := el_paused (audio s)\<rparr>, console := console s @ [err]\<rparr>"
          by (simp add: effect_playing_def)
        then show ?thesis by blast
      qed
    qed
  qed
qed

lemma effect_volume_frame:
  "effect_volume s = Inr s' \<Longrightarrow> \<exists>v. s' = s\<lparr>audio := (audio s)\<lparr>el_volume := v\<rparr>\<rparr>"
proof (cases "audioRef s")
  case Null
  assume "effect_volume s = Inr s'"
  with Null have "s' = s\<lparr>audio := (audio s)\<lparr>el_volume := el_volume (audio s)\<rparr>\<rparr>"
    by (auto simp: effect_volume_def)
  then show ?thesis by blast
next
  case Elem
  assume "effect_volume s = Inr s'"
  with Elem show ?thesis
    by (auto simp: effect_volume_def split: sum.splits dest!: set_volume_frame)
qed

lemma run_effects_frame:
  "run_effects outcome old new = Inr s' \<Longrightarrow>
   \<exists>p c v. s' = new\<lparr>audio := (audio new)\<lparr>el_paused := p, el_volume := v\<rparr>, console := c\<rparr>"
proof -
  assume a: "run_effects outcome old new = Inr s'"
  define s1 where "s1 = (if isPlaying new \<noteq> isPlaying old then effect_playing outcome new else new)"
  have "\<exists>p c. s1 = new\<lparr>audio := (audio new)\<lparr>el_paused := p\<rparr>, console := c\<rparr>"
  proof (cases "isPlaying new \<noteq> isPlaying old")
    case True
    then show ?thesis using effect_playing_frame [of outcome new] by (simp add: s1_def)
  next
    case False
    then have "s1 = new\<lparr>audio := (audio new)\<lparr>el_paused := el_paused (audio new)\<rparr>, console := console new\<rparr>"
      by (simp add: s1_def)
    then show ?thesis by blast
  qed
  then obtain p c where s1: "s1 = new\<lparr>audio := (audio new)\<lparr>el_paused := p\<rparr>, console := c\<rparr>"
    by blast
  have "\<exists>v. s' = s1\<lparr>audio := (audio s1)\<lparr>el_volume := v\<rparr>\<rparr>"
  proof (cases "volume s1 \<noteq> volume old")
    case True
    with a have "effect_volume s1 = Inr s'" by (simp add: run_effects_def s1_def Let_def)
    then show ?thesis by (rule effect_volume_frame)
  next
    case False
    with a have "s' = s1" by (simp add: run_effects_def s1_def Let_def)
    then have "s' = s1\<lparr>audio := (audio s1)\<lparr>el_volume := el_volume (audio s1)\<rparr>\<rparr>" by simp
    then show ?thesis by blast
  qed
  then obtain v where "s' = s1\<lparr>audio := (audio s1)\<lparr>el_volume := v\<rparr>\<rparr>" by blast
  with s1 have "s' = new\<lparr>audio := (audio new)\<lparr>el_paused := p, el_volume := v\<rparr>, console := c\<rparr>"
    by simp
  then show ?thesis by blast
qed

lemma wired_step: "wired s \<Longrightarrow> step outcome e s = Inr s' \<Longrightarrow> wired s'"
proof -
  assume w: "wired s" and st: "step outcome e s = Inr s'"
  from st obtain s1 where h: "handle e s = Inr s1" and r: "run_effects outcome s s1 = Inr s'"
    by (auto simp: step_def split: sum.splits)
  from w h have "wired s1" by (rule wired_handle)
  moreover from r obtain p c v where
    "s' = s1\<lparr>audio := (audio s1)\<lparr>el_paused := p, el_volume := v\<rparr>, console := c\<rparr>"
    using run_effects_frame by blast
  ultimately show ?thesis by (simp add: wired_def)
qed

lemma wired_run: "wired s \<Longrightarrow> run es s = Inr s' \<Longrightarrow> wired s'"
proof (induction es arbitrary: s)
  case Nil
  then show ?case by simp
next
  case (Cons p es)
  obtain outcome e where p: "p = (outcome, e)" by (cases p)
  from Cons.prems(2) p obtain s1 where
    s1: "step outcome e s = Inr s1" and rest: "run es s1 = Inr s'"
    by (auto split: sum.splits)
  from Cons.prems(1) s1 have "wired s1" by (rule wired_step)
  then show ?case using rest by (rule Cons.IH)
qed

lemma wired_session: "session src es = Inr s \<Longrightarrow> wired s"
  by (auto simp: session_def split: sum.splits dest: wired_mount wired_run)

lemma step_toggle_rejected:
  "audioRef s = Elem \<Longrightarrow> \<not> isLoading s \<Longrightarrow> \<not> isPlaying s \<Longrightarrow>
   step (Rejected err) ClickPlayPause s = Inr (s\<lparr>isPlaying := True, console := console s @ [err]\<rparr>)"
  by (simp add: step_def handlePlayPause_def run_effects_def effect_playing_def)

lemma step_ended:
  "wired s \<Longrightarrow> \<exists>s'. step outcome (Media Ended) s = Inr s' \<and> \<not> isPlaying s'"
proof -
  assume w: "wired s"
  then have h: "handle (Media Ended) s = Inr (handleEnded s)"
    by (simp add: dispatchEvent_wired)
  have v: "volume (handleEnded s) = volume s" "\<not> isPlaying (handleEnded s)"
    by (simp_all add: handleEnded_def)
  obtain p c where "effect_playing outcome (handleEnded s) =
      (handleEnded s)\<lparr>audio := (audio (handleEnded s))\<lparr>el_paused := p\<rparr>, console := c\<rparr>"
    using effect_playing_frame by blast
  then have e: "\<not> isPlaying (effect_playing outcome (handleEnded s))"
    "volume (effect_playing outcome (handleEnded s)) = volume s"
    using v by simp_all
  show ?thesis
    using h e v by (simp add: step_def run_effects_def Let_def)
qed

lemma session_play:
  "session ''a.mp3'' [(Resolved, ClickPlayPause)] =
     Inr ((first_render ''a.mp3'')\<lparr>isPlaying := True, audioRef := Elem,
      audio := new_audio\<lparr>el_volume := 3 / 4, el_paused := False, el_listeners := listeners_of 0\<rparr>,
      cleanup := Some 0, runs := Suc 0\<rparr>)"
  by (simp add: session_def mount_eq step_def handlePlayPause_def run_effects_def
      effect_playing_def first_render_def new_audio_def)

subsection \<open>What a step changes\<close>

lemma change_src_frame:
  assumes "wired s"
  shows "\<exists>l c r. change_src src s =
     s\<lparr>audioSrc := src, audio := (audio s)\<lparr>el_listeners := l\<rparr>, cleanup := c, runs := r\<rparr>"
proof (cases "src = audioSrc s")
  case True
  then have "change_src src s =
      s\<lparr>audioSrc := src, audio := (audio s)\<lparr>el_listeners := el_listeners (audio s)\<rparr>,
        cleanup := cleanup s, runs := runs s\<rparr>"
    by (simp add: change_src_def)
  then show ?thesis by blast
next
  case False
  from assms have w': "wired (s\<lparr>audioSrc := src\<rparr>)" by (simp add: wired_def)
  have "audioRef s = Elem" using assms by (simp add: wired_def)
  with False have "change_src src s =
      s\<lparr>audioSrc := src, audio := (audio s)\<lparr>el_listeners := listeners_of (runs s)\<rparr>,
        cleanup := Some (runs s), runs := Suc (runs s)\<rparr>"
    by (simp add: change_src_def run_cleanup_wired [OF w'] effect_listeners_empty)
  then show ?thesis by blast
qed

lemma handle_cells:
  assumes w: "wired s" and h: "handle e s = Inr s1"
  shows "isPlaying s1 =
      (if e = ClickPlayPause \<and> \<not> isLoading s then \<not> isPlaying s
       else if e = Media Ended then False else isPlaying s)"
    and "isLoading s1 =
      (if e = Media Loadstart then True else if e = Media Canplay then False else isLoading s)"
    and "(\<forall>v. e \<noteq> ChangeVolume v) \<longrightarrow> volume s1 = volume s"
    and "el_volume (audio s1) = el_volume (audio s)"
proof -
  have "isPlaying s1 =
      (if e = ClickPlayPause \<and> \<not> isLoading s then \<not> isPlaying s
       else if e = Media Ended then False else isPlaying s) \<and>
    isLoading s1 =
      (if e = Media Loadstart then True else if e = Media Canplay then False else isLoading s) \<and>
    ((\<forall>v. e \<noteq> ChangeVolume v) \<longrightarrow> volume s1 = volume s) \<and>
    el_volume (audio s1) = el_volume (audio s)"
  proof (cases e)
    case ClickPlayPause
    with h show ?thesis by (auto simp: handlePlayPause_def)
  next
    case (ClickProgress m)
    with h have "handleProgressClick m s = Inr s1" by simp
    then obtain t c where "s1 = s\<lparr>audio := (audio s)\<lparr>el_currentTime := t\<rparr>, currentTime := c\<rparr>"
      using handleProgressClick_frame by blast
    with ClickProgress show ?thesis by simp
  next
    case (ChangeVolume v)
    with h show ?thesis by (auto simp: handleVolumeChange_def)
  next
    case ClickSkipBack
    with h have "handleSkipBack s = Inr s1" by simp
    then obtain t where "s1 = s\<lparr>audio := (audio s)\<lparr>el_currentTime := t\<rparr>\<rparr>"
      using handleSkipBack_frame by blast
    with ClickSkipBack show ?thesis by simp
  next
    case ClickSkipForward
    with h have "handleSkipForward s = Inr s1" by simp
    then obtain t where "s1 = s\<lparr>audio := (audio s)\<lparr>el_currentTime := t\<rparr>\<rparr>"
      using handleSkipForward_frame by blast
    with ClickSkipForward show ?thesis by simp
  next
    case ClickLike
    with h show ?thesis by (auto simp: toggleLike_def)
  next
    case (Media ty)
    with h w have "s1 = (case ty of Timeupdate \<Rightarrow> updateTime s | Loadedmetadata \<Rightarrow> updateDuration s
      | Ended \<Rightarrow> handleEnded s | Loadstart \<Rightarrow> handleLoadStart s | Canplay \<Rightarrow> handleCanPlay s)"
      by (simp add: dispatchEvent_wired)
    with Media show ?thesis
      by (cases ty) (simp_all add: updateTime_def updateDuration_def handleEnded_def
          handleLoadStart_def handleCanPlay_def)
  next
    case (BrowserTime t)
    with h show ?thesis by auto
  next
    case (BrowserDuration d)
    with h show ?thesis by auto
  next
    case (SrcChange src)
    from change_src_frame [OF w, of src] obtain l c r where
      "change_src src s =
        s\<lparr>audioSrc := src, audio := (audio s)\<lparr>el_listeners := l\<rparr>, cleanup := c, runs := r\<rparr>"
      by blast
    with h SrcChange show ?thesis by auto
  qed
  then show "isPlaying s1 =
      (if e = ClickPlayPause \<and> \<not> isLoading s then \<not> isPlaying s
       else if e = Media Ended then False else isPlaying s)"
    and "isLoading s1 =
      (if e = Media Loadstart then True else if e = Media Canplay then False else isLoading s)"
    and "(\<forall>v. e \<noteq> ChangeVolume v) \<longrightarrow> volume s1 = volume s"
    and "el_volume (audio s1) = el_volume (audio s)"
    by blast+
qed

lemma step_split:
  "step outcome e s = Inr s' \<Longrightarrow>
   \<exists>s1. handle e s = Inr s1 \<and> run_effects outcome s s1 = Inr s'"
  by (auto simp: step_def split: sum.splits)

lemma step_cells:
  assumes w: "wired s" and st: "step outcome e s = Inr s'"
  shows "isPlaying s' =
      (if e = ClickPlayPause \<and> \<not> isLoading s then \<not> isPlaying s
       else if e = Media Ended then False else isPlaying s)"
    and "isLoading s' =
      (if e = Media Loadstart then True else if e = Media Canplay then False else isLoading s)"
    and "(\<forall>v. e \<noteq> ChangeVolume v) \<longrightarrow> volume s' = volume s"
proof -
  from st obtain s1 where h: "handle e s = Inr s1" and r: "run_effects outcome s s1 = Inr s'"
    using step_split by blast
  from r obtain p c v where
    s': "s' = s1\<lparr>audio := (audio s1)\<lparr>el_paused := p, el_volume := v\<rparr>, console := c\<rparr>"
    using run_effects_frame by blast
  show "isPlaying s' =
      (if e = ClickPlayPause \<and> \<not> isLoading s then \<not> isPlaying s
       else if e = Media Ended then False else isPlaying s)"
    using handle_cells(1) [OF w h] s' by simp
  show "isLoading s' =
      (if e = Media Loadstart then True else if e = Media Canplay then False else isLoading s)"
    using handle_cells(2) [OF w h] s' by simp
  show "(\<forall>v. e \<noteq> ChangeVolume v) \<longrightarrow> volume s' = volume s"
    using handle_cells(3) [OF w h] s' by simp
qed

lemma run_append:
  "run (xs @ ys) s = (case run xs s of Inl err \<Rightarrow> Inl err | Inr s1 \<Rightarrow> run ys s1)"
  by (induction xs arbitrary: s) (auto split: sum.splits)

lemma step_canplay:
  assumes "wired s"
  shows "step outcome (Media Canplay) s = Inr (s\<lparr>isLoading := False\<rparr>)"
proof -
  have "handle (Media Canplay) s = Inr (handleCanPlay s)"
    using assms by (simp add: dispatchEvent_wired)
  then show ?thesis
    by (simp add: step_def run_effects_def handleCanPlay_def)
qed

lemma quiet_run:
  "wired s \<Longrightarrow> \<not> isPlaying s \<Longrightarrow> ClickPlayPause \<notin> set (map snd tr) \<Longrightarrow>
   run tr s = Inr s' \<Longrightarrow> \<not> isPlaying s'"
proof (induction tr arbitrary: s)
  case Nil
  then show ?case by simp
next
  case (Cons p tr)
  obtain outcome e where p: "p = (outcome, e)" by (cases p)
  from Cons.prems(4) p obtain s1 where
    s1: "step outcome e s = Inr s1" and rest: "run tr s1 = Inr s'"
    by (auto split: sum.splits)
  from Cons.prems(3) p have e: "e \<noteq> ClickPlayPause" by auto
  have "wired s1" using Cons.prems(1) s1 by (rule wired_step)
  moreover have "\<not> isPlaying s1"
    using step_cells(1) [OF Cons.prems(1) s1] e Cons.prems(2) by simp
  moreover have "ClickPlayPause \<notin> set (map snd tr)" using Cons.prems(3) by simp
  ultimately show ?case using rest by (rule Cons.IH)
qed

lemma loading_run:
  "wired s \<Longrightarrow> isLoading s \<Longrightarrow> \<not> isPlaying s \<Longrightarrow> Media Canplay \<notin> set (map snd tr) \<Longrightarrow>
   run tr s = Inr s' \<Longrightarrow> wired s' \<and> isLoading s' \<and> \<not> isPlaying s'"
proof (induction tr arbitrary: s)
  case Nil
  then show ?case by simp
next
  case (Cons p tr)
  obtain outcome e where p: "p = (outcome, e)" by (cases p)
  from Cons.prems(5) p obtain s1 where
    s1: "step outcome e s = Inr s1" and rest: "run tr s1 = Inr s'"
    by (auto split: sum.splits)
  from Cons.prems(4) p have e: "e \<noteq> Media Canplay" by auto
  have "wired s1" using Cons.prems(1) s1 by (rule wired_step)
  moreover have "isLoading s1"
    using step_cells(2) [OF Cons.prems(1) s1] e Cons.prems(2) by simp
  moreover have "\<not> isPlaying s1"
    using step_cells(1) [OF Cons.prems(1) s1] Cons.prems(2,3) by simp
  moreover have "Media Canplay \<notin> set (map snd tr)" using Cons.prems(4) by simp
  ultimately show ?case using rest by (rule Cons.IH)
qed

lemma loading_until_canplay:
  assumes w: "wired s" and l: "isLoading s" and np: "\<not> isPlaying s"
    and nc: "Media Canplay \<notin> set (map snd tr)"
    and r: "run (tr @ [(outcome, Media Canplay)]) s = Inr s'"
  shows "\<not> isLoading s' \<and> \<not> isPlaying s'"
proof -
  from r obtain s1 where s1: "run tr s = Inr s1"
    and last: "step outcome (Media Canplay) s1 = Inr s'"
    by (auto simp: run_append split: sum.splits)
  from loading_run [OF w l np nc s1] have "wired s1" "\<not> isPlaying s1" by simp_all
  with last show ?thesis by (auto simp: step_canplay)
qed

lemma session_swap_while_playing:
  "session ''a.mp3'' [(Resolved, ClickPlayPause), (Resolved, SrcChange ''b.mp3''),
      (Resolved, Media Loadstart)] =
     Inr ((first_render ''b.mp3'')\<lparr>isPlaying := True, isLoading := True, audioRef := Elem,
      audio := new_audio\<lparr>el_volume := 3 / 4, el_paused := False, el_listeners := listeners_of 1\<rparr>,
      cleanup := Some 1, runs := 2\<rparr>)"
  by (simp add: session_def mount_eq step_def handlePlayPause_def run_effects_def
      effect_playing_def first_render_def new_audio_def change_src_def run_cleanup_def
      removeEventListener_def effect_listeners_def addEventListener_def listeners_of_def
      dispatchEvent_def handleLoadStart_def numeral_2_eq_2)

subsection \<open>The volume stays in step\<close>







subsection \<open>Subscription and cleanup\<close>

lemma count_listeners_of: "length (filter (\<lambda>p. fst p = ty) (listeners_of g)) = 1"
  by (cases ty) (simp_all add: listeners_of_def)

lemma disjoint_runs: "g \<noteq> g' \<Longrightarrow> set (listeners_of g) \<inter> set (listeners_of g') = {}"
  by (auto simp: listeners_of_def)

lemma unmount_wired: "wired s \<Longrightarrow> el_listeners (audio (unmount s)) = []"
  by (auto simp: wired_def unmount_def run_cleanup_def removeEventListener_def listeners_of_def)

lemma change_src_wired:
  assumes w: "wired s" and ne: "src \<noteq> audioSrc s"
  shows "run_cleanup (s\<lparr>audioSrc := src\<rparr>) =
      s\<lparr>audioSrc := src, audio := (audio s)\<lparr>el_listeners := []\<rparr>, cleanup := None\<rparr>"
    and "change_src src s =
      s\<lparr>audioSrc := src, audio := (audio s)\<lparr>el_listeners := listeners_of (runs s)\<rparr>,
        cleanup := Some (runs s), runs := Suc (runs s)\<rparr>"
proof -
  from w have w': "wired (s\<lparr>audioSrc := src\<rparr>)" by (simp add: wired_def)
  show "run_cleanup (s\<lparr>audioSrc := src\<rparr>) =
      s\<lparr>audioSrc := src, audio := (audio s)\<lparr>el_listeners := []\<rparr>, cleanup := None\<rparr>"
    by (simp add: run_cleanup_wired [OF w'])
  have "audioRef s = Elem" using w by (simp add: wired_def)
  with ne show "change_src src s =
      s\<lparr>audioSrc := src, audio := (audio s)\<lparr>el_listeners := listeners_of (runs s)\<rparr>,
        cleanup := Some (runs s), runs := Suc (runs s)\<rparr>"
    by (simp add: change_src_def run_cleanup_wired [OF w'] effect_listeners_empty)
qed

lemma wired_count:
  "wired s \<Longrightarrow> length (filter (\<lambda>p. fst p = ty) (el_listeners (audio s))) = 1"
  by (auto simp: wired_def count_listeners_of)

lemma wired_old_new:
  assumes "wired s"
  shows "set (listeners_of (runs s)) \<inter> set (el_listeners (audio s)) = {}"
proof -
  from assms obtain g where "cleanup s = Some g" "el_listeners (audio s) = listeners_of g"
    "g < runs s" by (auto simp: wired_def)
  then show ?thesis using disjoint_runs [of "runs s" g] by simp
qed

lemma session_mounted:
  "session ''a.mp3'' [] = Inr ((first_render ''a.mp3'')\<lparr>audioRef := Elem,
      audio := new_audio\<lparr>el_volume := 3 / 4, el_listeners := listeners_of 0\<rparr>,
      cleanup := Some 0, runs := Suc 0\<rparr>)"
  by (simp add: session_def mount_eq)

subsection \<open>Example runs\<close>

lemma session_loading:
  "session ''a.mp3'' [(Resolved, Media Loadstart)] =
     Inr ((first_render ''a.mp3'')\<lparr>isLoading := True, audioRef := Elem,
      audio := new_audio\<lparr>el_volume := 3 / 4, el_listeners := listeners_of 0\<rparr>,
      cleanup := Some 0, runs := Suc 0\<rparr>)"
  by (simp add: session_def mount_eq step_def run_effects_def dispatchEvent_def
      listeners_of_def handleLoadStart_def first_render_def)

lemma run_toggle_while_loading:
  "run ([(Resolved, ClickPlayPause)] @ [(Resolved, Media Canplay)])
     ((first_render ''a.mp3'')\<lparr>isLoading := True, audioRef := Elem,
      audio := new_audio\<lparr>el_volume := 3 / 4, el_listeners := listeners_of 0\<rparr>,
      cleanup := Some 0, runs := Suc 0\<rparr>) =
     Inr ((first_render ''a.mp3'')\<lparr>audioRef := Elem,
      audio := new_audio\<lparr>el_volume := 3 / 4, el_listeners := listeners_of 0\<rparr>,
      cleanup := Some 0, runs := Suc 0\<rparr>)"
  by (simp add: step_def run_effects_def dispatchEvent_def handlePlayPause_def
      listeners_of_def handleCanPlay_def first_render_def)

lemma run_ended_like:
  "run [(Resolved, Media Ended), (Resolved, ClickLike)]
     ((first_render ''a.mp3'')\<lparr>audioRef := Elem,
      audio := new_audio\<lparr>el_volume := 3 / 4, el_listeners := listeners_of 0\<rparr>,
      cleanup := Some 0, runs := Suc 0\<rparr>) =
     Inr ((first_render ''a.mp3'')\<lparr>isLiked := True, audioRef := Elem,
      audio := new_audio\<lparr>el_volume := 3 / 4, el_listeners := listeners_of 0\<rparr>,
      cleanup := Some 0, runs := Suc 0\<rparr>)"
  by (simp add: step_def run_effects_def dispatchEvent_def toggleLike_def
      listeners_of_def handleEnded_def first_render_def)



lemma not_finite_times_infinite:
  "d = PInf \<or> d = NInf \<Longrightarrow> set_currentTime (rounded (js_mul v d)) a = Inl TypeError"
  by (cases v) auto

lemma progress_click_infinite:
  assumes "audioRef s = Elem" and "duration s = PInf \<or> duration s = NInf"
  shows "handleProgressClick e s = Inl TypeError"
proof -
  have "js_truthy (duration s)" using assms(2) by auto
  then show ?thesis
    using assms(1) not_finite_times_infinite [OF assms(2)]
    by (simp add: handleProgressClick_def Let_def)
qed

lemma progress_click_finite:
  assumes "audioRef s = Elem" and "duration s = Fin d" and "d \<noteq> 0"
    and "rect_width e = w" and "w \<noteq> 0"
    and "round64 (clientX e - rect_left e) = Fin x" and "round64 (x / w) = Fin q"
    and "round64 (q * d) = Fin p"
  shows "handleProgressClick e s =
     Inr (s\<lparr>audio := (audio s)\<lparr>el_currentTime := p\<rparr>, currentTime := Fin p\<rparr>)"
  using assms by (simp add: handleProgressClick_def js_sub_def)

lemma session_unbounded:
  "session ''a.mp3'' [(Resolved, BrowserDuration PInf), (Resolved, Media Loadedmetadata)] =
     Inr ((first_render ''a.mp3'')\<lparr>duration := PInf, audioRef := Elem,
      audio := new_audio\<lparr>el_duration := PInf, el_volume := 3 / 4, el_listeners := listeners_of 0\<rparr>,
      cleanup := Some 0, runs := Suc 0\<rparr>)"
  by (simp add: session_def mount_eq step_def run_effects_def dispatchEvent_def
      listeners_of_def updateDuration_def first_render_def new_audio_def)

subsection \<open>Specified behaviour\<close>

text \<open>
  C1. While \<open>isLoading\<close> is true the play/pause toggle changes nothing at all, so
  \<open>isPlaying\<close> and every other cell keep their values; while \<open>isLoading\<close> is false
  the toggle negates \<open>isPlaying\<close> and changes nothing else.
\<close>

theorem handlePlayPause_toggle:
  "(isLoading s \<longrightarrow> handlePlayPause s = s) \<and>
   (\<not> isLoading s \<longrightarrow> handlePlayPause s = s\<lparr>isPlaying := \<not> isPlaying s\<rparr>)"
  by (simp add: handlePlayPause_def)

theorem handlePlayPause_toggle_witness:
  "isLoading (handleLoadStart (first_render ''a.mp3'')) \<and>
   handlePlayPause (handleLoadStart (first_render ''a.mp3'')) =
     handleLoadStart (first_render ''a.mp3'') \<and>
   \<not> isLoading (first_render ''a.mp3'') \<and>
   isPlaying (handlePlayPause (first_render ''a.mp3''))"
  using handlePlayPause_toggle [of "handleLoadStart (first_render ''a.mp3'')"]
    handlePlayPause_toggle [of "first_render ''a.mp3''"]
  by (simp add: handleLoadStart_def first_render_def)

text \<open>
  C2. When \<^verbatim>\<open>play()\<close> is rejected, the playing effect appends the rejection to the
  console log and changes nothing else: \<open>isPlaying\<close> stays true. Seen from the
  toggle: a click that starts playback, with the play command rejected, ends in a
  state that differs from the state before the click only in \<open>isPlaying\<close>, now
  true, and in the log.
\<close>

theorem play_rejection_logged:
  "(audioRef s = Elem \<and> isPlaying s \<longrightarrow>
      effect_playing (Rejected err) s = s\<lparr>console := console s @ [err]\<rparr>) \<and>
   (audioRef s = Elem \<and> \<not> isLoading s \<and> \<not> isPlaying s \<longrightarrow>
      step (Rejected err) ClickPlayPause s =
        Inr (s\<lparr>isPlaying := True, console := console s @ [err]\<rparr>))"
  by (simp add: step_toggle_rejected) (simp add: effect_playing_def)

theorem play_rejection_logged_witness:
  "audioRef (projr (session ''a.mp3'' [])) = Elem \<and>
   \<not> isLoading (projr (session ''a.mp3'' [])) \<and>
   \<not> isPlaying (projr (session ''a.mp3'' [])) \<and>
   map_sum id isPlaying
     (step (Rejected NotAllowedError) ClickPlayPause (projr (session ''a.mp3'' []))) = Inr True \<and>
   map_sum id console
     (step (Rejected NotAllowedError) ClickPlayPause (projr (session ''a.mp3'' []))) =
     Inr [NotAllowedError] \<and>
   console (effect_playing (Rejected NotAllowedError)
     (projr (session ''a.mp3'' [(Resolved, ClickPlayPause)]))) = [NotAllowedError] \<and>
   isPlaying (effect_playing (Rejected NotAllowedError)
     (projr (session ''a.mp3'' [(Resolved, ClickPlayPause)])))"
  using play_rejection_logged [where s = "projr (session ''a.mp3'' [])" and err = NotAllowedError]
    play_rejection_logged [where s = "projr (session ''a.mp3'' [(Resolved, ClickPlayPause)])"
      and err = NotAllowedError]
  by (simp add: session_play) (simp add: session_def mount_eq first_render_def)



text \<open>
  C5 (as the code has it). A click on a track of width \<open>w\<close> other than zero, with the
  element attached and a finite duration \<open>d\<close> other than zero. Let \<open>x\<close> be the offset
  (the pointer's \<open>clientX\<close> less the left edge of the track), \<open>q\<close> the quotient
  \<open>x / w\<close> and \<open>p\<close> the product \<open>q \<times> d\<close>, each as double arithmetic gives it, all
  three finite: the position of the element and the displayed \<open>currentTime\<close> both
  become \<open>p\<close>, and nothing else changes. With the duration zero or \<open>NaN\<close> the click
  changes nothing.
\<close>

theorem progress_click_seeks:
  "(audioRef s = Elem \<and> duration s = Fin d \<and> d \<noteq> 0 \<and> rect_width e = w \<and> w \<noteq> 0 \<and>
    round64 (clientX e - rect_left e) = Fin x \<and> round64 (x / w) = Fin q \<and>
    round64 (q * d) = Fin p \<longrightarrow>
      handleProgressClick e s =
        Inr (s\<lparr>audio := (audio s)\<lparr>el_currentTime := p\<rparr>, currentTime := Fin p\<rparr>)) \<and>
   (duration s = Fin 0 \<or> duration s = NaN \<longrightarrow> handleProgressClick e s = Inr s)"
  by (auto simp: handleProgressClick_def js_sub_def)

theorem progress_click_seeks_witness:
  "round64 (130 - 30) = Fin 100 \<and> round64 (100 / 400) = Fin (1 / 4) \<and>
   round64 (1 / 4 * 200) = Fin 50 \<and>
   handleProgressClick \<lparr>clientX = 130, rect_left = 30, rect_width = 400\<rparr>
     ((first_render ''a.mp3'')\<lparr>audioRef := Elem, duration := Fin 200\<rparr>) =
     Inr ((first_render ''a.mp3'')\<lparr>audioRef := Elem, duration := Fin 200,
       audio := new_audio\<lparr>el_currentTime := 50\<rparr>, currentTime := Fin 50\<rparr>) \<and>
   round64 (1 - 0) = Fin 1 \<and> round64 (1 / 49) = Fin (5882252574524729 / 2 ^ 58) \<and>
   round64 (5882252574524729 / 2 ^ 58 * 49) = Fin (1 - 1 / 2 ^ 53) \<and>
   map_sum id currentTime
     (handleProgressClick \<lparr>clientX = 1, rect_left = 0, rect_width = 49\<rparr>
        ((first_render ''a.mp3'')\<lparr>audioRef := Elem, duration := Fin 49\<rparr>)) =
     Inr (Fin (1 - 1 / 2 ^ 53)) \<and>
   duration ((first_render ''a.mp3'')\<lparr>audioRef := Elem\<rparr>) = Fin 0 \<and>
   handleProgressClick \<lparr>clientX = 130, rect_left = 30, rect_width = 400\<rparr>
     ((first_render ''a.mp3'')\<lparr>audioRef := Elem\<rparr>) =
     Inr ((first_render ''a.mp3'')\<lparr>audioRef := Elem\<rparr>)"
proof -
  let ?s = "(first_render ''a.mp3'')\<lparr>audioRef := Elem, duration := Fin 200\<rparr>"
  let ?e = "\<lparr>clientX = 130, rect_left = 30, rect_width = 400\<rparr>"
  let ?t = "(first_render ''a.mp3'')\<lparr>audioRef := Elem, duration := Fin 49\<rparr>"
  let ?f = "\<lparr>clientX = 1, rect_left = 0, rect_width = 49\<rparr>"
  let ?z = "(first_render ''a.mp3'')\<lparr>audioRef := Elem\<rparr>"
  have r1: "round64 (130 - 30) = Fin 100" "round64 (100 / 400) = Fin (1 / 4)"
    "round64 (1 / 4 * 200) = Fin 50"
    by (simp_all add: round64_100 round64_quarter round64_50)
  have r2: "round64 (1 - 0) = Fin 1" "round64 (1 / 49) = Fin (5882252574524729 / 2 ^ 58)"
    "round64 (5882252574524729 / 2 ^ 58 * 49) = Fin (1 - 1 / 2 ^ 53)"
    by (simp_all only: round64_1 round64_49th round64_49th_times_49 diff_zero)
  have s: "audioRef ?s = Elem" "duration ?s = Fin 200" "(200::real) \<noteq> 0"
    "rect_width ?e = 400" "(400::real) \<noteq> 0" "round64 (clientX ?e - rect_left ?e) = Fin 100"
    using r1(1) by simp_all
  have t: "audioRef ?t = Elem" "duration ?t = Fin 49" "(49::real) \<noteq> 0"
    "rect_width ?f = 49" "round64 (clientX ?f - rect_left ?f) = Fin 1"
    using r2(1) by simp_all
  have z: "duration ?z = Fin 0" by (simp add: first_render_def)
  from progress_click_seeks [where s = ?s and e = ?e and d = 200 and w = 400 and x = 100
      and q = "1 / 4" and p = 50] s r1(2,3)
  have c1: "handleProgressClick ?e ?s =
      Inr (?s\<lparr>audio := (audio ?s)\<lparr>el_currentTime := 50\<rparr>, currentTime := Fin 50\<rparr>)"
    by blast
  from progress_click_seeks [where s = ?t and e = ?f and d = 49 and w = 49 and x = 1
      and q = "5882252574524729 / 2 ^ 58" and p = "1 - 1 / 2 ^ 53"] t r2(2,3)
  have c2: "handleProgressClick ?f ?t =
      Inr (?t\<lparr>audio := (audio ?t)\<lparr>el_currentTime := 1 - 1 / 2 ^ 53\<rparr>,
        currentTime := Fin (1 - 1 / 2 ^ 53)\<rparr>)"
    by blast
  from progress_click_seeks [where s = ?z and e = ?e] z
  have c3: "handleProgressClick ?e ?z = Inr ?z" by blast
  have a1: "handleProgressClick ?e ?s =
      Inr ((first_render ''a.mp3'')\<lparr>audioRef := Elem, duration := Fin 200,
        audio := new_audio\<lparr>el_currentTime := 50\<rparr>, currentTime := Fin 50\<rparr>)"
    by (simp only: c1) (simp add: first_render_def)
  have a2: "map_sum id currentTime (handleProgressClick ?f ?t) = Inr (Fin (1 - 1 / 2 ^ 53))"
    by (simp only: c2) simp
  from r1 r2 a1 a2 z c3 show ?thesis by blast
qed

text \<open>
  C5 as stated fails. With an unbounded duration: the element reports the duration
  \<open>Infinity\<close>, the metadata event stores it in the cell, the guard lets it pass, and
  the assignment of a position that is not finite raises a TypeError, so the click
  neither seeks nor is ignored. And with a finite duration the position is the
  product as doubles give it: a click at offset 1 on a track of width 49, with the
  duration 49, sets the position just below 1, not to \<open>(1 / 49) \<times> 49 = 1\<close>.
\<close>

theorem progress_click_unbounded_counterexample:
  "map_sum id duration
     (session ''a.mp3'' [(Resolved, BrowserDuration PInf), (Resolved, Media Loadedmetadata)]) =
     Inr PInf \<and>
   session ''a.mp3'' [(Resolved, BrowserDuration PInf), (Resolved, Media Loadedmetadata),
     (Resolved, ClickProgress \<lparr>clientX = 130, rect_left = 30, rect_width = 400\<rparr>)] =
     Inl TypeError \<and>
   map_sum id currentTime
     (handleProgressClick \<lparr>clientX = 1, rect_left = 0, rect_width = 49\<rparr>
        ((first_render ''a.mp3'')\<lparr>audioRef := Elem, duration := Fin 49\<rparr>)) =
     Inr (Fin (1 - 1 / 2 ^ 53))"
proof -
  let ?u = "(first_render ''a.mp3'')\<lparr>duration := PInf, audioRef := Elem,
      audio := new_audio\<lparr>el_duration := PInf, el_volume := 3 / 4, el_listeners := listeners_of 0\<rparr>,
      cleanup := Some 0, runs := Suc 0\<rparr>"
  let ?t = "(first_render ''a.mp3'')\<lparr>audioRef := Elem, duration := Fin 49\<rparr>"
  let ?f = "\<lparr>clientX = 1, rect_left = 0, rect_width = 49\<rparr>"
  have ext: "session src (es @ [p]) =
      (case session src es of Inl err \<Rightarrow> Inl err | Inr s \<Rightarrow> run [p] s)" for src es p
    by (simp add: session_def run_append split: sum.splits)
  have "handleProgressClick \<lparr>clientX = 130, rect_left = 30, rect_width = 400\<rparr> ?u = Inl TypeError"
    by (rule progress_click_infinite) simp_all
  then have click: "run [(Resolved, ClickProgress \<lparr>clientX = 130, rect_left = 30, rect_width = 400\<rparr>)] ?u =
      Inl TypeError"
    by (simp add: step_def)
  have "[(Resolved, BrowserDuration PInf), (Resolved, Media Loadedmetadata),
      (Resolved, ClickProgress \<lparr>clientX = 130, rect_left = 30, rect_width = 400\<rparr>)] =
    [(Resolved, BrowserDuration PInf), (Resolved, Media Loadedmetadata)] @
      [(Resolved, ClickProgress \<lparr>clientX = 130, rect_left = 30, rect_width = 400\<rparr>)]" by simp
  then have a: "session ''a.mp3'' [(Resolved, BrowserDuration PInf), (Resolved, Media Loadedmetadata),
      (Resolved, ClickProgress \<lparr>clientX = 130, rect_left = 30, rect_width = 400\<rparr>)] =
      Inl TypeError"
    by (simp only: ext session_unbounded sum.case click)
  have b: "map_sum id duration
     (session ''a.mp3'' [(Resolved, BrowserDuration PInf), (Resolved, Media Loadedmetadata)]) =
     Inr PInf"
    by (simp only: session_unbounded) simp
  have "round64 (clientX ?f - rect_left ?f) = Fin 1" by (simp add: round64_1)
  moreover have "audioRef ?t = Elem" "duration ?t = Fin 49" "(49::real) \<noteq> 0" "rect_width ?f = 49"
    by simp_all
  ultimately have "handleProgressClick ?f ?t =
      Inr (?t\<lparr>audio := (audio ?t)\<lparr>el_currentTime := 1 - 1 / 2 ^ 53\<rparr>,
        currentTime := Fin (1 - 1 / 2 ^ 53)\<rparr>)"
    using round64_49th round64_49th_times_49 by (intro progress_click_finite) blast+
  then have c: "map_sum id currentTime (handleProgressClick ?f ?t) = Inr (Fin (1 - 1 / 2 ^ 53))"
    by (simp only:) simp
  from a b c show ?thesis by blast
qed

text \<open>
  C7 (as the code has it). For every double \<open>s\<close> with \<open>0 \<le> s < 60 \<times> 2\<^sup>5\<^sup>0\<close>,
  \<open>formatTime\<close> gives the decimal numeral of \<open>\<lfloor>s / 60\<rfloor>\<close>, a colon, and \<open>\<lfloor>s mod 60\<rfloor>\<close>, a
  number below 60, as two digits. For every finite \<open>s \<ge> 0\<close> the minutes are the floor
  of the quotient \<open>s / 60\<close> as double arithmetic gives it: when that quotient \<open>q\<close> is
  below \<open>2\<^sup>5\<^sup>3\<close>, the text before the colon is the decimal numeral of \<open>\<lfloor>q\<rfloor>\<close>. Moreover
  \<open>formatTime NaN\<close> is \<^verbatim>\<open>0:00\<close>, \<open>formatTime 0\<close> is \<^verbatim>\<open>0:00\<close> and \<open>formatTime 65\<close> is
  \<^verbatim>\<open>1:05\<close>.
\<close>

theorem formatTime_renders:
  "(round64 s = Fin s \<and> 0 \<le> s \<and> s < 60 * 2 ^ 50 \<longrightarrow>
      formatTime render (Fin s) =
        digits10 (nat \<lfloor>s / 60\<rfloor>) @ '':'' @
        two_digits (nat \<lfloor>s - 60 * of_int \<lfloor>s / 60\<rfloor>\<rfloor>) \<and>
      nat \<lfloor>s - 60 * of_int \<lfloor>s / 60\<rfloor>\<rfloor> < 60) \<and>
   (0 \<le> s \<and> round64 (s / 60) = Fin q \<and> q < 2 ^ 53 \<longrightarrow>
      formatTime render (Fin s) =
        digits10 (nat \<lfloor>q\<rfloor>) @ '':'' @
        two_digits (nat \<lfloor>s - 60 * of_int \<lfloor>s / 60\<rfloor>\<rfloor>)) \<and>
   formatTime render NaN = ''0:00'' \<and>
   formatTime render (Fin 0) = ''0:00'' \<and>
   formatTime render (Fin 65) = ''1:05''"
proof -
  have b: "formatTime render NaN = ''0:00''" by (simp add: formatTime_def)
  have "round64 (of_int 0) = Fin (of_int 0)" by (rule round64_int) simp
  then have "round64 0 = Fin 0" by simp
  from formatTime_double [OF this, of render]
  have c: "formatTime render (Fin 0) = ''0:00''"
    by (simp add: two_digits_def digit_char_def digits10.simps)
  have "round64 (of_int 65) = Fin (of_int 65)" by (rule round64_int) simp
  then have "round64 65 = Fin 65" by simp
  from formatTime_double [OF this, of render]
  have d: "formatTime render (Fin 65) = ''1:05''"
    by (simp add: two_digits_def digit_char_def digits10.simps)
  show ?thesis
    using b c d seconds_below_60 [of s] formatTime_double [of s render]
      formatTime_finite [of s q render]
    by blast
qed

theorem formatTime_renders_witness:
  "round64 (7451 / 2) = Fin (7451 / 2) \<and> (0::real) \<le> 7451 / 2 \<and> (7451 / 2 :: real) < 60 * 2 ^ 50 \<and>
   formatTime blank (Fin (7451 / 2)) = ''62:05'' \<and>
   (0::real) \<le> 60 * 2 ^ 50 + 56 \<and>
   round64 ((60 * 2 ^ 50 + 56) / 60) = Fin 1125899906842625 \<and>
   (1125899906842625 :: real) < 2 ^ 53 \<and>
   formatTime blank (Fin (60 * 2 ^ 50 + 56)) = ''1125899906842625:56''"
proof -
  have h1: "round64 (7451 / 2) = Fin (7451 / 2)" by (rule round64_half_minutes)
  have h2: "(0::real) \<le> 7451 / 2" "(7451 / 2 :: real) < 60 * 2 ^ 50" by simp_all
  have g1: "(0::real) \<le> 60 * 2 ^ 50 + 56" by simp
  have g2: "round64 ((60 * 2 ^ 50 + 56) / 60) = Fin 1125899906842625"
    by (rule round64_big_quotient)
  have g3: "(1125899906842625 :: real) < 2 ^ 53" by simp
  note a = formatTime_renders [where s = "7451 / 2" and render = blank]
  note b = formatTime_renders [where s = "60 * 2 ^ 50 + 56" and q = 1125899906842625
      and render = blank]
  from a h1 h2 have "formatTime blank (Fin (7451 / 2)) =
      digits10 (nat \<lfloor>7451 / 2 / 60 :: real\<rfloor>) @ '':'' @
      two_digits (nat \<lfloor>7451 / 2 - 60 * of_int \<lfloor>7451 / 2 / 60 :: real\<rfloor> :: real\<rfloor>)"
    by blast
  then have c1: "formatTime blank (Fin (7451 / 2)) = ''62:05''"
    by (simp add: two_digits_def digit_char_def digits10.simps)
  from b g1 g2 g3 have "formatTime blank (Fin (60 * 2 ^ 50 + 56)) =
      digits10 (nat \<lfloor>1125899906842625 :: real\<rfloor>) @ '':'' @
      two_digits (nat \<lfloor>60 * 2 ^ 50 + 56 - 60 * of_int \<lfloor>(60 * 2 ^ 50 + 56) / 60 :: real\<rfloor> :: real\<rfloor>)"
    by blast
  then have c2: "formatTime blank (Fin (60 * 2 ^ 50 + 56)) = ''1125899906842625:56''"
    by (simp add: two_digits_def digit_char_def digits10.simps)
  from h1 h2 g1 g2 g3 c1 c2 show ?thesis by blast
qed

text \<open>
  C7 as stated fails twice. An infinite number of seconds (the duration of an
  unbounded stream) passes the \<^verbatim>\<open>isNaN\<close> guard and is rendered \<^verbatim>\<open>Infinity:NaN\<close>. And
  for the double \<open>60 \<times> 2\<^sup>5\<^sup>0 + 56\<close> the quotient by 60 is rounded up to \<open>2\<^sup>5\<^sup>0 + 1\<close>, so
  the minutes shown are one more than \<open>\<lfloor>s / 60\<rfloor>\<close>.
\<close>

theorem formatTime_unbounded_counterexample:
  "formatTime blank PInf = ''Infinity:NaN'' \<and>
   round64 (60 * 2 ^ 50 + 56) = Fin (60 * 2 ^ 50 + 56) \<and>
   formatTime blank (Fin (60 * 2 ^ 50 + 56)) = ''1125899906842625:56'' \<and>
   digits10 (nat \<lfloor>(60 * 2 ^ 50 + 56) / 60 :: real\<rfloor>) = ''1125899906842624''"
proof -
  have "(0::real) \<le> 60 * 2 ^ 50 + 56" "(1125899906842625 :: real) < 2 ^ 53" by simp_all
  from formatTime_finite [OF this(1) round64_big_quotient this(2), of blank]
  have "formatTime blank (Fin (60 * 2 ^ 50 + 56)) = ''1125899906842625:56''"
    by (simp add: two_digits_def digit_char_def digits10.simps)
  moreover have "digits10 (nat \<lfloor>(60 * 2 ^ 50 + 56) / 60 :: real\<rfloor>) = ''1125899906842624''"
    by (simp add: digit_char_def digits10.simps)
  ultimately show ?thesis
    by (simp only: formatTime_infinite round64_big_seconds simp_thms)
qed

text \<open>
  C8. Whatever \<open>isPlaying\<close> was, the handler of the \<^verbatim>\<open>ended\<close> event leaves it
  false; and in every state reached from the mount, the delivery of \<^verbatim>\<open>ended\<close> by
  the element succeeds and ends with \<open>isPlaying\<close> false.
\<close>

theorem ended_resets_isPlaying:
  "isPlaying (handleEnded (s\<lparr>isPlaying := b\<rparr>)) = False \<and>
   (session src es = Inr s \<longrightarrow>
      (\<exists>s'. step outcome (Media Ended) s = Inr s' \<and> isPlaying s' = False))"
  using step_ended [of s outcome] wired_session [of src es s]
  by (simp add: handleEnded_def)

theorem ended_resets_isPlaying_witness:
  "session ''a.mp3'' [(Resolved, ClickPlayPause)] =
     Inr (projr (session ''a.mp3'' [(Resolved, ClickPlayPause)])) \<and>
   isPlaying (projr (session ''a.mp3'' [(Resolved, ClickPlayPause)])) \<and>
   map_sum id isPlaying
     (step Resolved (Media Ended) (projr (session ''a.mp3'' [(Resolved, ClickPlayPause)]))) =
     Inr False"
  using ended_resets_isPlaying [where s = "projr (session ''a.mp3'' [(Resolved, ClickPlayPause)])"
      and src = "''a.mp3''" and es = "[(Resolved, ClickPlayPause)]" and outcome = Resolved
      and b = True]
  by (auto simp: session_play)

text \<open>
  C10. The mount succeeds, and the state it leaves is: not playing, position 0,
  duration 0, volume 75, not liked, not loading.
\<close>

theorem mount_initial_state:
  "\<exists>s. mount outcome src = Inr s \<and> isPlaying s = False \<and> currentTime s = Fin 0 \<and>
     duration s = Fin 0 \<and> volume s = Fin 75 \<and> isLiked s = False \<and> isLoading s = False"
  by (simp add: mount_eq first_render_def)

text \<open>
  C3 (as the code has it). In every state reached from the mount, the \<^verbatim>\<open>canplay\<close>
  event clears \<open>isLoading\<close> and changes nothing else, so \<open>isPlaying\<close> keeps its value.
  If \<open>isPlaying\<close> is false while the widget is loading, it is still false at the
  \<^verbatim>\<open>canplay\<close> event that ends the loading, whatever happens in between (the toggle
  is ignored while loading); and once false it remains false as long as the user
  does not act on the play/pause toggle.
\<close>

theorem canplay_keeps_isPlaying:
  "session src es = Inr s \<longrightarrow>
     step outcome (Media Canplay) s = Inr (s\<lparr>isLoading := False\<rparr>) \<and>
     (\<not> isPlaying s \<and> isLoading s \<and> Media Canplay \<notin> set (map snd tr) \<and>
      run (tr @ [(outcome, Media Canplay)]) s = Inr s' \<longrightarrow>
        \<not> isLoading s' \<and> \<not> isPlaying s') \<and>
     (\<not> isPlaying s \<and> ClickPlayPause \<notin> set (map snd tr) \<and> run tr s = Inr s' \<longrightarrow>
        \<not> isPlaying s')"
  using wired_session [of src es s] step_canplay [of s outcome]
    loading_until_canplay [of s tr outcome s'] quiet_run [of s tr s']
  by blast

theorem canplay_keeps_isPlaying_witness:
  "session ''a.mp3'' [(Resolved, Media Loadstart)] =
     Inr (projr (session ''a.mp3'' [(Resolved, Media Loadstart)])) \<and>
   \<not> isPlaying (projr (session ''a.mp3'' [(Resolved, Media Loadstart)])) \<and>
   isLoading (projr (session ''a.mp3'' [(Resolved, Media Loadstart)])) \<and>
   Media Canplay \<notin> set (map snd [(Resolved, ClickPlayPause)]) \<and>
   map_sum id isLoading (run ([(Resolved, ClickPlayPause)] @ [(Resolved, Media Canplay)])
     (projr (session ''a.mp3'' [(Resolved, Media Loadstart)]))) = Inr False \<and>
   map_sum id isPlaying (run ([(Resolved, ClickPlayPause)] @ [(Resolved, Media Canplay)])
     (projr (session ''a.mp3'' [(Resolved, Media Loadstart)]))) = Inr False \<and>
   session ''a.mp3'' [] = Inr (projr (session ''a.mp3'' [])) \<and>
   \<not> isPlaying (projr (session ''a.mp3'' [])) \<and>
   ClickPlayPause \<notin> set (map snd [(Resolved, Media Ended), (Resolved, ClickLike)]) \<and>
   map_sum id isPlaying (run [(Resolved, Media Ended), (Resolved, ClickLike)]
     (projr (session ''a.mp3'' []))) = Inr False"
proof -
  let ?s1 = "projr (session ''a.mp3'' [(Resolved, Media Loadstart)])"
  let ?t1 = "[(Resolved, ClickPlayPause)]"
  let ?r1 = "run (?t1 @ [(Resolved, Media Canplay)]) ?s1"
  let ?s2 = "projr (session ''a.mp3'' [])"
  let ?t2 = "[(Resolved, Media Ended), (Resolved, ClickLike)]"
  let ?r2 = "run ?t2 ?s2"
  have h1: "session ''a.mp3'' [(Resolved, Media Loadstart)] = Inr ?s1"
    "\<not> isPlaying ?s1" "isLoading ?s1"
    by (simp_all add: session_loading first_render_def)
  have h2: "Media Canplay \<notin> set (map snd ?t1)" by simp
  have h3: "?r1 = Inr (projr ?r1)"
    by (simp only: session_loading run_toggle_while_loading sum.sel)
  have g1: "session ''a.mp3'' [] = Inr ?s2" "\<not> isPlaying ?s2"
    by (simp_all add: session_mounted first_render_def)
  have g2: "ClickPlayPause \<notin> set (map snd ?t2)" by simp
  have g3: "?r2 = Inr (projr ?r2)"
    by (simp only: session_mounted run_ended_like sum.sel)
  from canplay_keeps_isPlaying [where s = ?s1 and src = "''a.mp3''" and es = "[(Resolved, Media Loadstart)]"
      and tr = ?t1 and outcome = Resolved and s' = "projr ?r1"] h1 h2 h3
  have c1: "\<not> isLoading (projr ?r1) \<and> \<not> isPlaying (projr ?r1)" by blast
  from canplay_keeps_isPlaying [where s = ?s2 and src = "''a.mp3''" and es = "[]"
      and tr = ?t2 and outcome = Resolved and s' = "projr ?r2"] g1 g2 g3
  have c2: "\<not> isPlaying (projr ?r2)" by blast
  have m1: "map_sum id isLoading ?r1 = Inr False" "map_sum id isPlaying ?r1 = Inr False"
    using c1 by (subst h3, simp)+
  have m2: "map_sum id isPlaying ?r2 = Inr False"
    using c2 by (subst g3, simp)
  from h1 h2 g1 g2 m1 m2 show ?thesis by blast
qed

text \<open>
  C3 as stated fails: \<open>isPlaying\<close> is not forced to false at the transition from
  loading to ready. The user starts playback, the parent then passes another
  \<^verbatim>\<open>audioSrc\<close>, the element starts loading (\<open>isLoading\<close> is true) and becomes
  playable: after \<^verbatim>\<open>canplay\<close> the widget is not loading and \<open>isPlaying\<close> is true.
\<close>

theorem canplay_forces_paused_counterexample:
  "map_sum id isLoading (session ''a.mp3'' [(Resolved, ClickPlayPause),
      (Resolved, SrcChange ''b.mp3''), (Resolved, Media Loadstart)]) = Inr True \<and>
   map_sum id isLoading (session ''a.mp3'' [(Resolved, ClickPlayPause),
      (Resolved, SrcChange ''b.mp3''), (Resolved, Media Loadstart), (Resolved, Media Canplay)]) =
     Inr False \<and>
   map_sum id isPlaying (session ''a.mp3'' [(Resolved, ClickPlayPause),
      (Resolved, SrcChange ''b.mp3''), (Resolved, Media Loadstart), (Resolved, Media Canplay)]) =
     Inr True"
proof -
  have ext: "session src (es @ [p]) =
      (case session src es of Inl err \<Rightarrow> Inl err | Inr s \<Rightarrow> run [p] s)" for src es p
    by (simp add: session_def run_append split: sum.splits)
  have "[(Resolved, ClickPlayPause), (Resolved, SrcChange ''b.mp3''), (Resolved, Media Loadstart),
      (Resolved, Media Canplay)] =
    [(Resolved, ClickPlayPause), (Resolved, SrcChange ''b.mp3''), (Resolved, Media Loadstart)] @
      [(Resolved, Media Canplay)]" by simp
  then have "session ''a.mp3'' [(Resolved, ClickPlayPause), (Resolved, SrcChange ''b.mp3''),
      (Resolved, Media Loadstart), (Resolved, Media Canplay)] =
    (case session ''a.mp3'' [(Resolved, ClickPlayPause), (Resolved, SrcChange ''b.mp3''),
      (Resolved, Media Loadstart)] of Inl err \<Rightarrow> Inl err
     | Inr s \<Rightarrow> run [(Resolved, Media Canplay)] s)"
    by (simp only: ext)
  then show ?thesis
    by (simp add: session_swap_while_playing step_def run_effects_def dispatchEvent_def
        listeners_of_def handleCanPlay_def first_render_def new_audio_def)
qed



text \<open>
  C9. In every state reached from the mount, each of the five event types has
  exactly one listener on the element. On unmount the cleanup leaves no listener.
  When \<^verbatim>\<open>audioSrc\<close> changes, the cleanup runs first and leaves no listener on the
  element; the effect then registers the five closures of the new run, none of
  which is a listener of the run before, so again each event type has exactly one
  listener.
\<close>

theorem listeners_resubscribed:
  "session src es = Inr s \<longrightarrow>
     length (filter (\<lambda>p. fst p = ty) (el_listeners (audio s))) = 1 \<and>
     el_listeners (audio (unmount s)) = [] \<and>
     (src' \<noteq> audioSrc s \<longrightarrow>
        change_src src' s = effect_listeners (run_cleanup (s\<lparr>audioSrc := src'\<rparr>)) \<and>
        el_listeners (audio (run_cleanup (s\<lparr>audioSrc := src'\<rparr>))) = [] \<and>
        set (el_listeners (audio (change_src src' s))) \<inter> set (el_listeners (audio s)) = {} \<and>
        length (filter (\<lambda>p. fst p = ty) (el_listeners (audio (change_src src' s)))) = 1)"
proof
  assume "session src es = Inr s"
  then have w: "wired s" by (rule wired_session)
  have a: "length (filter (\<lambda>p. fst p = ty) (el_listeners (audio s))) = 1"
    using w by (rule wired_count)
  have b: "el_listeners (audio (unmount s)) = []" using w by (rule unmount_wired)
  have c: "change_src src' s = effect_listeners (run_cleanup (s\<lparr>audioSrc := src'\<rparr>)) \<and>
        el_listeners (audio (run_cleanup (s\<lparr>audioSrc := src'\<rparr>))) = [] \<and>
        set (el_listeners (audio (change_src src' s))) \<inter> set (el_listeners (audio s)) = {} \<and>
        length (filter (\<lambda>p. fst p = ty) (el_listeners (audio (change_src src' s)))) = 1"
    if ne: "src' \<noteq> audioSrc s"
  proof -
    have 1: "change_src src' s = effect_listeners (run_cleanup (s\<lparr>audioSrc := src'\<rparr>))"
      using ne by (simp add: change_src_def)
    have 2: "el_listeners (audio (run_cleanup (s\<lparr>audioSrc := src'\<rparr>))) = []"
      by (simp add: change_src_wired(1) [OF w ne])
    have 3: "set (el_listeners (audio (change_src src' s))) \<inter> set (el_listeners (audio s)) = {}"
      using wired_old_new [OF w] by (simp add: change_src_wired(2) [OF w ne])
    have 4: "length (filter (\<lambda>p. fst p = ty) (el_listeners (audio (change_src src' s)))) = 1"
      using wired_change_src [OF w] by (rule wired_count)
    from 1 2 3 4 show ?thesis by blast
  qed
  from a b c show "length (filter (\<lambda>p. fst p = ty) (el_listeners (audio s))) = 1 \<and>
     el_listeners (audio (unmount s)) = [] \<and>
     (src' \<noteq> audioSrc s \<longrightarrow>
        change_src src' s = effect_listeners (run_cleanup (s\<lparr>audioSrc := src'\<rparr>)) \<and>
        el_listeners (audio (run_cleanup (s\<lparr>audioSrc := src'\<rparr>))) = [] \<and>
        set (el_listeners (audio (change_src src' s))) \<inter> set (el_listeners (audio s)) = {} \<and>
        length (filter (\<lambda>p. fst p = ty) (el_listeners (audio (change_src src' s)))) = 1)"
    by blast
qed

theorem listeners_resubscribed_witness:
  "session ''a.mp3'' [] = Inr (projr (session ''a.mp3'' [])) \<and>
   ''b.mp3'' \<noteq> audioSrc (projr (session ''a.mp3'' [])) \<and>
   length (filter (\<lambda>p. fst p = Ended) (el_listeners (audio (projr (session ''a.mp3'' []))))) = 1 \<and>
   el_listeners (audio (unmount (projr (session ''a.mp3'' [])))) = [] \<and>
   el_listeners (audio (run_cleanup ((projr (session ''a.mp3'' []))\<lparr>audioSrc := ''b.mp3''\<rparr>))) = [] \<and>
   length (filter (\<lambda>p. fst p = Ended)
     (el_listeners (audio (change_src ''b.mp3'' (projr (session ''a.mp3'' [])))))) = 1"
proof -
  have s: "session ''a.mp3'' [] = Inr (projr (session ''a.mp3'' []))"
    by (simp add: session_mounted)
  have ne: "''b.mp3'' \<noteq> audioSrc (projr (session ''a.mp3'' []))"
    by (simp add: session_mounted first_render_def)
  from s ne listeners_resubscribed [where s = "projr (session ''a.mp3'' [])" and src = "''a.mp3''" and es = "[]"
      and src' = "''b.mp3''" and ty = Ended]
  show ?thesis by blast
qed

end
